theory Spec2Isabelle
  imports Main "HOL-Library.Word"
begin

unbundle bit_operations_syntax

section \<open>Frame-pointer stack unwinding on x86 (stacktrace\_x86-inl.h)\<close>

text \<open>
  The header is compiled for several targets; the preprocessor conditions it tests
  (\<^verbatim>\<open>__linux__\<close>, \<^verbatim>\<open>__i386__\<close>, \<^verbatim>\<open>__x86_64__\<close>, \<^verbatim>\<open>_WIN32\<close>, \<^verbatim>\<open>NDEBUG\<close> for
  \<^verbatim>\<open>assert\<close>) are fields of a build configuration. A pointer (\<^verbatim>\<open>void**\<close>,
  \<^verbatim>\<open>uintptr_t\<close>) is a word of the target's pointer width \<open>'a\<close>, with \<open>0\<close> the null
  pointer; \<^verbatim>\<open>sizeof(void*)\<close> is that width in bytes. A C \<^verbatim>\<open>int\<close> that the code only
  counts with inside bounds it checks itself (\<^verbatim>\<open>n\<close>, \<^verbatim>\<open>skip_count\<close>, \<^verbatim>\<open>j\<close>, \<^verbatim>\<open>i\<close>,
  \<^verbatim>\<open>result\<close>) is an \<open>int\<close>; the one place where a value is narrowed to \<^verbatim>\<open>int\<close>
  (\<^verbatim>\<open>sizes[n]\<close>) keeps its 32 bits.
\<close>

datatype os = Linux | Win32 | OtherOS

datatype arch = I386 | X86_64 | OtherArch

record config =
  target_os :: os
  target_arch :: arch
  NDEBUG :: bool

definition sizeof_ptr :: "'a::len word" where
  "sizeof_ptr = of_nat (LENGTH('a) div 8)"

text \<open>
  What the unwinder reads and calls but does not own: the memory of the process
  (pointer-sized loads from the stack, byte loads from the instructions of the VDSO),
  the readability probe \<^verbatim>\<open>absl::debug_internal::AddressIsReadable\<close>, and the three
  queries made to \<^verbatim>\<open>VDSOSupport\<close>. A \<^verbatim>\<open>LookupSymbol\<close> call that returns false is
  \<open>None\<close>; one that returns true is \<open>Some\<close> of the address it stored. Loads are
  total: a fault of the hardware on an unmapped address is outside this model.
\<close>

record (overloaded) 'a env =
  word_at :: "'a word \<Rightarrow> 'a word"
  byte_at :: "'a word \<Rightarrow> 8 word"
  AddressIsReadable :: "'a word \<Rightarrow> bool"
  vdso_IsPresent :: bool
  vdso_kernel_rt_sigreturn :: "'a word option"
  vdso_kernel_vsyscall :: "'a word option"

text \<open>
  The registers of \<^verbatim>\<open>uc_mcontext.gregs\<close> that the code reads: \<^verbatim>\<open>REG_EBP\<close>/\<^verbatim>\<open>REG_RBP\<close>,
  \<^verbatim>\<open>REG_ESP\<close>/\<^verbatim>\<open>REG_RSP\<close> and \<^verbatim>\<open>REG_EIP\<close>. Their C type \<^verbatim>\<open>greg_t\<close> is a signed integer
  of pointer width.
\<close>

record (overloaded) 'a ucontext =
  gregs_BP :: "'a word"
  gregs_SP :: "'a word"
  gregs_IP :: "'a word"

datatype error = AssertionFailure string

text \<open>\<^verbatim>\<open>assert(cond)\<close> followed by the rest of the function: nothing under \<^verbatim>\<open>NDEBUG\<close>.\<close>

definition c_assert :: "bool \<Rightarrow> bool \<Rightarrow> string \<Rightarrow> error + 'x \<Rightarrow> error + 'x" where
  "c_assert ndebug cond msg rest =
     (if ndebug \<or> cond then rest else Inl (AssertionFailure msg))"

subsection \<open>CountPushInstructions\<close>

definition kMaxBytes :: int where
  "kMaxBytes = 10"

text \<open>
  The \<^verbatim>\<open>for\<close> loop of \<^verbatim>\<open>CountPushInstructions\<close>, from index \<open>i\<close> with \<open>result\<close>
  pushes counted so far; \<open>addr\<close> is the byte array \<^verbatim>\<open>addr[.]\<close>. In the
  \<^verbatim>\<open>mov reg,reg\<close> branch the body's \<^verbatim>\<open>++i\<close> and the loop's own \<^verbatim>\<open>++i\<close> both run.
\<close>

function CountPushInstructions_loop ::
  "bool \<Rightarrow> (int \<Rightarrow> 8 word) \<Rightarrow> int \<Rightarrow> int \<Rightarrow> error + int" where
  "CountPushInstructions_loop ndebug addr i result =
     (if i < kMaxBytes then
        (if addr i = 0x89 then
           (if addr (i + 1) = 0xE5 then Inr 0
            else CountPushInstructions_loop ndebug addr (i + 1 + 1) result)
         else if addr i = 0x0F \<and> (addr (i + 1) = 0x34 \<or> addr (i + 1) = 0x05) then
           Inr result
         else if addr i AND 0xF0 = 0x50 then
           CountPushInstructions_loop ndebug addr (i + 1) (result + 1)
         else if addr i = 0xCD \<and> addr (i + 1) = 0x80 then
           c_assert ndebug (result = 0) ''result == 0'' (Inr 0)
         else
           c_assert ndebug False ''unexpected instruction in __kernel_vsyscall'' (Inr 0))
      else
        c_assert ndebug False
          ''did not find SYSENTER or SYSCALL in __kernel_vsyscall'' (Inr 0))"
  by pat_completeness auto
termination
  by (relation "measure (\<lambda>(ndebug, addr, i, result). nat (kMaxBytes - i))") auto

definition CountPushInstructions :: "config \<Rightarrow> 'a::len env \<Rightarrow> 'a word \<Rightarrow> error + int" where
  "CountPushInstructions cfg e addr =
     CountPushInstructions_loop (NDEBUG cfg) (\<lambda>i. byte_at e (addr + of_int i)) 0 0"

text \<open>
  The instructions that the scan passes over, as they are laid out in the bytes from
  index \<open>i\<close> on: a one-byte \<^verbatim>\<open>push %reg\<close>, or a two-byte \<^verbatim>\<open>mov reg,reg\<close> other than
  \<^verbatim>\<open>mov %esp,%ebp\<close>.
\<close>

datatype insn = PushReg | MovReg

fun insn_bytes :: "insn list \<Rightarrow> int" where
  "insn_bytes [] = 0"
| "insn_bytes (PushReg # is) = 1 + insn_bytes is"
| "insn_bytes (MovReg # is) = 2 + insn_bytes is"

fun pushes :: "insn list \<Rightarrow> int" where
  "pushes [] = 0"
| "pushes (PushReg # is) = 1 + pushes is"
| "pushes (MovReg # is) = pushes is"

fun laid_out :: "(int \<Rightarrow> 8 word) \<Rightarrow> int \<Rightarrow> insn list \<Rightarrow> bool" where
  "laid_out addr i [] = True"
| "laid_out addr i (PushReg # is) = (addr i AND 0xF0 = 0x50 \<and> laid_out addr (i + 1) is)"
| "laid_out addr i (MovReg # is) =
     (addr i = 0x89 \<and> addr (i + 1) \<noteq> 0xE5 \<and> laid_out addr (i + 2) is)"

subsection \<open>GetFP\<close>

definition kMaxFrameBytes :: int where
  "kMaxFrameBytes = 100000"

text \<open>
  \<^verbatim>\<open>bp >= sp\<close> and \<^verbatim>\<open>bp - sp <= kMaxFrameBytes\<close> are evaluated in \<^verbatim>\<open>greg_t\<close>: a signed
  comparison, and a subtraction of the register width whose result is read as signed.
\<close>

definition GetFP :: "config \<Rightarrow> 'a::len ucontext option \<Rightarrow> 'a word" where
  "GetFP cfg vuc =
     (if target_os cfg \<noteq> Linux then 0
      else case vuc of
        None \<Rightarrow> 0
      | Some uc \<Rightarrow>
          (let bp = (case target_arch cfg of
                       I386 \<Rightarrow> gregs_BP uc | X86_64 \<Rightarrow> gregs_BP uc | OtherArch \<Rightarrow> 0);
               sp = (case target_arch cfg of
                       I386 \<Rightarrow> gregs_SP uc | X86_64 \<Rightarrow> gregs_SP uc | OtherArch \<Rightarrow> 0)
           in if sint sp \<le> sint bp \<and> sint (bp - sp) \<le> kMaxFrameBytes then bp else sp))"

subsection \<open>NextStackFrame\<close>

text \<open>
  The function-local statics of \<^verbatim>\<open>NextStackFrame\<close>; \<open>statics_initial\<close> is their value
  when the process starts.
\<close>

record (overloaded) 'a statics =
  num_push_instructions :: int
  kernel_rt_sigreturn_address :: "'a word"
  kernel_vsyscall_address :: "'a word"

definition statics_initial :: "'a::len statics" where
  "statics_initial =
     \<lparr>num_push_instructions = -1, kernel_rt_sigreturn_address = 0,
      kernel_vsyscall_address = 0\<rparr>"

text \<open>The block \<^verbatim>\<open>if (num_push_instructions == -1) { ... }\<close>.\<close>

definition init_statics :: "config \<Rightarrow> 'a::len env \<Rightarrow> 'a statics \<Rightarrow> error + 'a statics" where
  "init_statics cfg e st =
     (if num_push_instructions st = -1 then
        (if vdso_IsPresent e then
           (if vdso_kernel_rt_sigreturn e = None \<or> vdso_kernel_vsyscall e = None \<or>
               vdso_kernel_rt_sigreturn e = Some 0 \<or> vdso_kernel_vsyscall e = Some 0 then
              c_assert (NDEBUG cfg) False
                ''VDSO is present, but doesn't have expected symbols''
                (Inr (st\<lparr>num_push_instructions := 0\<rparr>))
            else
              (case CountPushInstructions cfg e (the (vdso_kernel_vsyscall e)) of
                 Inl err \<Rightarrow> Inl err
               | Inr c \<Rightarrow>
                   Inr \<lparr>num_push_instructions = c,
                        kernel_rt_sigreturn_address = the (vdso_kernel_rt_sigreturn e),
                        kernel_vsyscall_address = the (vdso_kernel_vsyscall e)\<rparr>))
         else Inr (st\<lparr>num_push_instructions := 0\<rparr>))
      else Inr st)"

text \<open>
  The rest of the \<^verbatim>\<open>__linux__ && __i386__\<close> block, once the statics are computed: the
  candidate \<open>new_fp\<close> is replaced by a stack slot of the context's \<^verbatim>\<open>%esp\<close> when the
  walk has stepped up to \<^verbatim>\<open>__kernel_vsyscall\<close>. The pointer difference
  \<^verbatim>\<open>reg_eip - kernel_vsyscall_address\<close> is a signed \<^verbatim>\<open>ptrdiff_t\<close>.
\<close>

definition vsyscall_fixup ::
  "'a::len env \<Rightarrow> 'a statics \<Rightarrow> 'a word \<Rightarrow> 'a word \<Rightarrow> 'a ucontext \<Rightarrow> 'a word" where
  "vsyscall_fixup e st old_fp new_fp ucv =
     (if num_push_instructions st \<noteq> 0 \<and> kernel_rt_sigreturn_address st \<noteq> 0 \<and>
         word_at e (old_fp + sizeof_ptr) = kernel_rt_sigreturn_address st then
        (let reg_ebp = gregs_BP ucv; reg_eip = gregs_IP ucv in
         if new_fp = reg_ebp \<and> kernel_vsyscall_address st \<le> reg_eip \<and>
            sint (reg_eip - kernel_vsyscall_address st) < kMaxBytes then
           (let reg_esp = gregs_SP ucv in
            if reg_esp \<noteq> 0 \<and> reg_esp AND (sizeof_ptr - 1) = 0 then
              (let reg_esp2 =
                     word_at e (reg_esp + sizeof_ptr * of_int (num_push_instructions st - 1))
               in if AddressIsReadable e reg_esp2 then reg_esp2 else new_fp)
            else new_fp)
         else new_fp)
      else new_fp)"

text \<open>
  The checks on the transition from \<open>old_fp\<close> to \<open>new_fp\<close> (from
  \<^verbatim>\<open>if (STRICT_UNWINDING && ...)\<close> to the final \<^verbatim>\<open>return new_fp\<close>); the result \<open>0\<close> is
  \<^verbatim>\<open>nullptr\<close>. \<^verbatim>\<open>kMaxFrameBytes\<close> is converted to \<^verbatim>\<open>uintptr_t\<close> for the unsigned
  comparison with the distance.
\<close>

definition check_transition ::
  "config \<Rightarrow> 'a::len env \<Rightarrow> bool \<Rightarrow> bool \<Rightarrow> 'a word \<Rightarrow> 'a word \<Rightarrow> 'a ucontext option \<Rightarrow> 'a word"
  where
  "check_transition cfg e STRICT_UNWINDING WITH_CONTEXT old_fp new_fp uc =
     (if (if STRICT_UNWINDING \<and> (\<not> WITH_CONTEXT \<or> uc = None \<or> new_fp \<noteq> GetFP cfg uc)
          then new_fp \<le> old_fp \<or> new_fp - old_fp > of_int kMaxFrameBytes
          else new_fp = 0 \<or> new_fp = old_fp)
      then 0
      else if new_fp AND (sizeof_ptr - 1) \<noteq> 0 then 0
      else if target_arch cfg = I386 \<and> new_fp \<ge> 0xffffe000 then 0
      else if target_os cfg \<noteq> Win32 \<and> \<not> STRICT_UNWINDING \<and> \<not> AddressIsReadable e new_fp then 0
      else new_fp)"

text \<open>
  \<^verbatim>\<open>NextStackFrame<STRICT_UNWINDING, WITH_CONTEXT>(old_fp, uc)\<close>, with the statics passed
  in and returned. It fails only where an \<^verbatim>\<open>assert\<close> does.
\<close>

definition NextStackFrame ::
  "config \<Rightarrow> 'a::len env \<Rightarrow> bool \<Rightarrow> bool \<Rightarrow> 'a statics \<Rightarrow> 'a word \<Rightarrow> 'a ucontext option
   \<Rightarrow> error + ('a statics \<times> 'a word)" where
  "NextStackFrame cfg e STRICT_UNWINDING WITH_CONTEXT st old_fp uc =
     (let new_fp = word_at e old_fp in
      if target_os cfg = Linux \<and> target_arch cfg = I386 \<and> WITH_CONTEXT \<and> uc \<noteq> None then
        (case init_statics cfg e st of
           Inl err \<Rightarrow> Inl err
         | Inr st' \<Rightarrow>
             Inr (st', check_transition cfg e STRICT_UNWINDING WITH_CONTEXT old_fp
                         (vsyscall_fixup e st' old_fp new_fp (the uc)) uc))
      else
        Inr (st, check_transition cfg e STRICT_UNWINDING WITH_CONTEXT old_fp new_fp uc))"

subsection \<open>UnwindImpl\<close>

definition kMaxUnwind :: int where
  "kMaxUnwind = 1000"

text \<open>
  The conversion of the \<^verbatim>\<open>uintptr_t\<close> difference to the \<^verbatim>\<open>int\<close> element of \<^verbatim>\<open>sizes\<close>:
  the low 32 bits, read as signed.
\<close>

definition int_of_uintptr :: "'a::len word \<Rightarrow> int" where
  "int_of_uintptr w = sint (ucast w :: 32 word)"

text \<open>
  The variables the capture loop changes. The arrays \<^verbatim>\<open>result\<close> and \<^verbatim>\<open>sizes\<close> are
  functions from the index to the element, so that a slot the code never writes keeps
  the content it had before the call; they are kept apart from the memory the walk
  reads. \<open>l_statics\<close> are the statics of \<^verbatim>\<open>NextStackFrame\<close>.
\<close>

record (overloaded) 'a locals =
  l_fp :: "'a word"
  l_n :: int
  l_skip_count :: int
  l_result :: "int \<Rightarrow> 'a word"
  l_sizes :: "int \<Rightarrow> int"
  l_statics :: "'a statics"

text \<open>
  The body of the \<^verbatim>\<open>while\<close> loop after its \<^verbatim>\<open>break\<close> test: the call of
  \<^verbatim>\<open>NextStackFrame<!IS_STACK_FRAMES, IS_WITH_CONTEXT>\<close>, then either the skip or the
  recording of the frame, then \<^verbatim>\<open>fp = next_fp\<close>.
\<close>

definition UnwindImpl_body ::
  "config \<Rightarrow> 'a::len env \<Rightarrow> bool \<Rightarrow> bool \<Rightarrow> 'a ucontext option \<Rightarrow> 'a locals
   \<Rightarrow> error + 'a locals" where
  "UnwindImpl_body cfg e IS_STACK_FRAMES IS_WITH_CONTEXT ucp s =
     (case NextStackFrame cfg e (\<not> IS_STACK_FRAMES) IS_WITH_CONTEXT (l_statics s) (l_fp s) ucp of
        Inl err \<Rightarrow> Inl err
      | Inr (st', next_fp) \<Rightarrow>
          Inr (if l_skip_count s > 0 then
                 s\<lparr>l_skip_count := l_skip_count s - 1, l_fp := next_fp, l_statics := st'\<rparr>
               else
                 s\<lparr>l_result := (l_result s)(l_n s := word_at e (l_fp s + sizeof_ptr)),
                   l_sizes :=
                     (if IS_STACK_FRAMES then
                        (l_sizes s)(l_n s :=
                          (if next_fp > l_fp s then int_of_uintptr (next_fp - l_fp s) else 0))
                      else l_sizes s),
                   l_n := l_n s + 1, l_fp := next_fp, l_statics := st'\<rparr>))"

function UnwindImpl_loop ::
  "config \<Rightarrow> 'a::len env \<Rightarrow> bool \<Rightarrow> bool \<Rightarrow> 'a ucontext option \<Rightarrow> int \<Rightarrow> 'a locals
   \<Rightarrow> error + 'a locals" where
  "UnwindImpl_loop cfg e IS_STACK_FRAMES IS_WITH_CONTEXT ucp max_depth s =
     (if l_fp s \<noteq> 0 \<and> l_n s < max_depth then
        (if word_at e (l_fp s + sizeof_ptr) = 0 then Inr s
         else
           (case UnwindImpl_body cfg e IS_STACK_FRAMES IS_WITH_CONTEXT ucp s of
              Inl err \<Rightarrow> Inl err
            | Inr s' \<Rightarrow> UnwindImpl_loop cfg e IS_STACK_FRAMES IS_WITH_CONTEXT ucp max_depth s'))
      else Inr s)"
  by pat_completeness auto
termination
  by (relation "measure (\<lambda>(cfg, e, isf, iwc, ucp, max_depth, s).
                   nat (max_depth - l_n s) + nat (l_skip_count s))")
     (auto simp: UnwindImpl_body_def split: sum.splits prod.splits if_splits)

text \<open>
  The \<^verbatim>\<open>for\<close> loop that counts the frames left, from frame \<open>fp\<close> with \<open>j\<close> counted so
  far; it returns the final statics, \<open>fp\<close> and \<open>j\<close>.
\<close>

function count_dropped ::
  "config \<Rightarrow> 'a::len env \<Rightarrow> bool \<Rightarrow> bool \<Rightarrow> 'a ucontext option \<Rightarrow> 'a statics \<Rightarrow> 'a word
   \<Rightarrow> int \<Rightarrow> error + ('a statics \<times> 'a word \<times> int)" where
  "count_dropped cfg e IS_STACK_FRAMES IS_WITH_CONTEXT ucp st fp j =
     (if fp \<noteq> 0 \<and> j < kMaxUnwind then
        (case NextStackFrame cfg e (\<not> IS_STACK_FRAMES) IS_WITH_CONTEXT st fp ucp of
           Inl err \<Rightarrow> Inl err
         | Inr (st', fp') \<Rightarrow>
             count_dropped cfg e IS_STACK_FRAMES IS_WITH_CONTEXT ucp st' fp' (j + 1))
      else Inr (st, fp, j))"
  by pat_completeness auto
termination
  by (relation "measure (\<lambda>(cfg, e, isf, iwc, ucp, st, fp, j). nat (kMaxUnwind - j))") auto

text \<open>
  What a call leaves behind: the value returned, the two arrays, the integer
  \<^verbatim>\<open>*min_dropped_frames\<close> (\<open>None\<close> for a null pointer) and the statics.
\<close>

record (overloaded) 'a unwound =
  returned :: int
  result_out :: "int \<Rightarrow> 'a word"
  sizes_out :: "int \<Rightarrow> int"
  min_dropped_frames_out :: "int option"
  statics_out :: "'a statics"

text \<open>
  \<^verbatim>\<open>UnwindImpl<IS_STACK_FRAMES, IS_WITH_CONTEXT>\<close>. \<open>frame_address\<close> is the value of
  \<^verbatim>\<open>__builtin_frame_address(0)\<close> and \<open>st\<close> the statics before the call;
  \<open>min_dropped_frames\<close> is \<open>None\<close> for a null pointer and otherwise holds the integer
  the pointer refers to.
\<close>

definition UnwindImpl ::
  "config \<Rightarrow> 'a::len env \<Rightarrow> bool \<Rightarrow> bool \<Rightarrow> 'a word \<Rightarrow> 'a statics \<Rightarrow>
   (int \<Rightarrow> 'a word) \<Rightarrow> (int \<Rightarrow> int) \<Rightarrow> int \<Rightarrow> int \<Rightarrow> 'a ucontext option \<Rightarrow> int option
   \<Rightarrow> error + 'a unwound" where
  "UnwindImpl cfg e IS_STACK_FRAMES IS_WITH_CONTEXT frame_address st
              result sizes max_depth skip_count ucp min_dropped_frames =
     (case UnwindImpl_loop cfg e IS_STACK_FRAMES IS_WITH_CONTEXT ucp max_depth
             \<lparr>l_fp = frame_address, l_n = 0, l_skip_count = skip_count,
              l_result = result, l_sizes = sizes, l_statics = st\<rparr> of
        Inl err \<Rightarrow> Inl err
      | Inr s \<Rightarrow>
          (case min_dropped_frames of
             None \<Rightarrow>
               Inr \<lparr>returned = l_n s, result_out = l_result s, sizes_out = l_sizes s,
                    min_dropped_frames_out = None, statics_out = l_statics s\<rparr>
           | Some old \<Rightarrow>
               (case count_dropped cfg e IS_STACK_FRAMES IS_WITH_CONTEXT ucp
                       (l_statics s) (l_fp s) 0 of
                  Inl err \<Rightarrow> Inl err
                | Inr (st', fp', j) \<Rightarrow>
                    Inr \<lparr>returned = l_n s, result_out = l_result s, sizes_out = l_sizes s,
                         min_dropped_frames_out = Some j, statics_out = st'\<rparr>)))"

subsection \<open>The walk, and the stacks of the test scenarios\<close>

text \<open>
  \<open>walk \<dots> st fp k\<close> is what \<open>k\<close> successive calls of \<^verbatim>\<open>NextStackFrame\<close> reach from
  the frame \<open>fp\<close> and the statics \<open>st\<close>: the \<open>k\<close>-th frame of the walk, counted from 0.
\<close>

primrec walk ::
  "config \<Rightarrow> 'a::len env \<Rightarrow> bool \<Rightarrow> bool \<Rightarrow> 'a ucontext option \<Rightarrow> 'a statics \<Rightarrow> 'a word \<Rightarrow> nat
   \<Rightarrow> error + ('a statics \<times> 'a word)" where
  "walk cfg e strict wc uc st fp 0 = Inr (st, fp)"
| "walk cfg e strict wc uc st fp (Suc k) =
     (case walk cfg e strict wc uc st fp k of
        Inl err \<Rightarrow> Inl err
      | Inr (st', f) \<Rightarrow> NextStackFrame cfg e strict wc st' f uc)"


text \<open>
  No \<^verbatim>\<open>assert\<close> stops the process: the only ones are those of the statics' first
  computation, which runs on 32-bit Linux in a call with a signal context.
\<close>

definition asserts_hold ::
  "config \<Rightarrow> 'a::len env \<Rightarrow> bool \<Rightarrow> 'a ucontext option \<Rightarrow> 'a statics \<Rightarrow> bool" where
  "asserts_hold cfg e wc uc st =
     (if target_os cfg = Linux \<and> target_arch cfg = I386 \<and> wc \<and> uc \<noteq> None then
        (case init_statics cfg e st of Inl err \<Rightarrow> False | Inr st' \<Rightarrow> True)
      else True)"

subsection \<open>Concrete inputs\<close>

text \<open>
  Small environments on which the theorems below are instantiated: a memory given by the
  list of its non-zero cells, every address readable, no VDSO.
\<close>

definition mem_of :: "('a::len word \<times> 'b::zero) list \<Rightarrow> 'a word \<Rightarrow> 'b" where
  "mem_of al a = (case map_of al a of None \<Rightarrow> 0 | Some v \<Rightarrow> v)"

definition stack_env :: "('a::len word \<times> 'a word) list \<Rightarrow> 'a env" where
  "stack_env al =
     \<lparr>word_at = mem_of al, byte_at = (\<lambda>a. 0), AddressIsReadable = (\<lambda>a. True),
      vdso_IsPresent = False, vdso_kernel_rt_sigreturn = None, vdso_kernel_vsyscall = None\<rparr>"

definition linux_x86_64 :: config where
  "linux_x86_64 = \<lparr>target_os = Linux, target_arch = X86_64, NDEBUG = False\<rparr>"

definition linux_i386 :: config where
  "linux_i386 = \<lparr>target_os = Linux, target_arch = I386, NDEBUG = False\<rparr>"

text \<open>
  A 32-bit VDSO whose \<^verbatim>\<open>__kernel_vsyscall\<close> is the SYSCALL sequence quoted in the
  header: \<^verbatim>\<open>push %ebp; mov %ecx,%ebp; syscall\<close>.
\<close>

definition vsyscall_amd :: "32 env" where
  "vsyscall_amd =
     \<lparr>word_at = (\<lambda>a. 0),
      byte_at = mem_of [(0xffffe400, 0x55), (0xffffe401, 0x89), (0xffffe402, 0xCD),
                        (0xffffe403, 0x0F), (0xffffe404, 0x05)],
      AddressIsReadable = (\<lambda>a. True),
      vdso_IsPresent = True, vdso_kernel_rt_sigreturn = Some 0xffffe500,
      vdso_kernel_vsyscall = Some 0xffffe400\<rparr>"


text \<open>
  Three frames at \<open>0x7000\<close>, \<open>0x7020\<close> and \<open>0x7040\<close>, the last one linked to null, with
  the return addresses \<open>0x401000\<close>, \<open>0x401100\<close> and \<open>0x401200\<close>.
\<close>

definition three_frames :: "64 env" where
  "three_frames = stack_env [(0x7000, 0x7020), (0x7008, 0x401000),
                             (0x7020, 0x7040), (0x7028, 0x401100),
                             (0x7048, 0x401200)]"

text \<open>A frame whose caller's frame lies \<open>2\<^sup>3\<^sup>1\<close> bytes higher.\<close>

definition far_frame :: "64 env" where
  "far_frame = stack_env [(0x1000, 0x80001000), (0x1008, 0x400100)]"

text \<open>
  A frame at \<open>0x2000\<close> whose caller's frame lies below it, at \<open>0x1000\<close>; and two
  frames in a memory of which the readability probe accepts no address, with a target
  that defines \<^verbatim>\<open>_WIN32\<close>.
\<close>

definition win32_x86_64 :: config where
  "win32_x86_64 = \<lparr>target_os = Win32, target_arch = X86_64, NDEBUG = False\<rparr>"

definition step_down :: "64 env" where
  "step_down = stack_env [(0x2000, 0x1000), (0x2008, 0x400200), (0x1008, 0x400100)]"

definition nothing_readable :: "64 env" where
  "nothing_readable =
     \<lparr>word_at = mem_of [(0x1000, 0x2000), (0x1008, 0x400100), (0x2008, 0x400200)],
      byte_at = (\<lambda>a. 0), AddressIsReadable = (\<lambda>a. False),
      vdso_IsPresent = False, vdso_kernel_rt_sigreturn = None, vdso_kernel_vsyscall = None\<rparr>"




section \<open>Properties\<close>

declare CountPushInstructions_loop.simps [simp del]

declare UnwindImpl_loop.simps [simp del] count_dropped.simps [simp del]

subsection \<open>CountPushInstructions\<close>

lemma CountPushInstructions_loop_nonneg:
  "0 \<le> r \<Longrightarrow> CountPushInstructions_loop nd addr i r = Inr c \<Longrightarrow> 0 \<le> c"
proof (induction nd addr i r rule: CountPushInstructions_loop.induct)
  case (1 ndebug addr i result)
  from "1.prems" show ?case
    apply (subst (asm) CountPushInstructions_loop.simps)
    apply (auto simp: c_assert_def split: if_splits intro: "1.IH")
    done
qed

lemma insn_bytes_nonneg: "0 \<le> insn_bytes is"
  by (induction "is" rule: insn_bytes.induct) simp_all

lemma CountPushInstructions_loop_prologue:
  "laid_out addr i is \<Longrightarrow> i + insn_bytes is \<le> 10 \<Longrightarrow>
   CountPushInstructions_loop nd addr i r =
   CountPushInstructions_loop nd addr (i + insn_bytes is) (r + pushes is)"
proof (induction addr i "is" arbitrary: r rule: laid_out.induct)
  case (1 addr i)
  then show ?case by simp
next
  case (2 addr i "is")
  have lt: "i < kMaxBytes" using "2.prems"(2) insn_bytes_nonneg [of "is"] by (simp add: kMaxBytes_def)
  have b: "addr i AND 0xF0 = 0x50" using "2.prems"(1) by simp
  then have ne: "addr i \<noteq> 0x89" "addr i \<noteq> 0x0F" by auto
  have "CountPushInstructions_loop nd addr i r =
        CountPushInstructions_loop nd addr (i + 1) (r + 1)"
    using lt b ne by (subst CountPushInstructions_loop.simps) simp
  also have "\<dots> = CountPushInstructions_loop nd addr (i + 1 + insn_bytes is) (r + 1 + pushes is)"
    using "2.IH" [of "r + 1"] "2.prems" by simp
  finally show ?case by (simp add: add.assoc add.left_commute)
next
  case (3 addr i "is")
  have lt: "i < kMaxBytes" using "3.prems"(2) insn_bytes_nonneg [of "is"] by (simp add: kMaxBytes_def)
  have "CountPushInstructions_loop nd addr i r =
        CountPushInstructions_loop nd addr (i + 2) r"
    using lt "3.prems"(1) by (subst CountPushInstructions_loop.simps) (simp add: add.assoc)
  also have "\<dots> = CountPushInstructions_loop nd addr (i + 2 + insn_bytes is) (r + pushes is)"
    using "3.IH" [of r] "3.prems" by simp
  finally show ?case by (simp add: add.assoc add.left_commute)
qed

text \<open>
  C9, as the claim states it, fails: the byte \<open>0x89\<close> followed by a byte other than
  \<open>0xE5\<close> is none of the four shapes, so the claim makes it an invariant violation.
  On \<^verbatim>\<open>push %ebp; mov %ecx,%ebp; syscall\<close>, with assertions compiled in, the second
  byte scanned is such a byte, and the function returns the count 1.
\<close>

theorem CountPushInstructions_other_mov_counterexample:
  "byte_at vsyscall_amd 0xffffe401 = 0x89 \<and>
   byte_at vsyscall_amd 0xffffe402 \<noteq> 0xE5 \<and>
   byte_at vsyscall_amd 0xffffe401 \<noteq> 0x0F \<and>
   byte_at vsyscall_amd 0xffffe401 AND 0xF0 \<noteq> 0x50 \<and>
   byte_at vsyscall_amd 0xffffe401 \<noteq> 0xCD \<and>
   \<not> NDEBUG linux_i386 \<and>
   CountPushInstructions linux_i386 vsyscall_amd 0xffffe400 = Inr 1"
  by (simp add: CountPushInstructions_def linux_i386_def vsyscall_amd_def mem_of_def
      CountPushInstructions_loop.simps kMaxBytes_def)

text \<open>
  C9, amended: at every index \<open>i\<close> of the scan, with \<open>r\<close> pushes counted, the function
  recognises five shapes. \<open>0x89 0xE5\<close> (\<^verbatim>\<open>mov %esp,%ebp\<close>) ends the scan with 0;
  \<open>0x89\<close> followed by any other byte (another \<^verbatim>\<open>mov reg,reg\<close>) is skipped together
  with that byte, the count unchanged; \<open>0x0F 0x34\<close> or \<open>0x0F 0x05\<close> ends the scan with
  the count \<open>r\<close>; a byte \<open>0x50..0x5F\<close> adds one to the count and the scan goes on;
  \<open>0xCD 0x80\<close> ends the scan with 0, an assertion failing first if \<open>r \<noteq> 0\<close>. Any
  other byte, and an index that is not below 10, is an assertion failure, or the
  result 0 when assertions are compiled out. So a run of pushes and of such moves that
  ends at or before index 10 is passed over, and leaves the count raised by the number
  of its pushes.
\<close>

theorem CountPushInstructions_shapes:
  "CountPushInstructions_loop nd addr i r =
    (if \<not> i < 10 then
       (if nd then Inr 0
        else Inl (AssertionFailure ''did not find SYSENTER or SYSCALL in __kernel_vsyscall''))
     else if addr i = 0x89 \<and> addr (i + 1) = 0xE5 then Inr 0
     else if addr i = 0x89 then CountPushInstructions_loop nd addr (i + 2) r
     else if addr i = 0x0F \<and> (addr (i + 1) = 0x34 \<or> addr (i + 1) = 0x05) then Inr r
     else if addr i AND 0xF0 = 0x50 then CountPushInstructions_loop nd addr (i + 1) (r + 1)
     else if addr i = 0xCD \<and> addr (i + 1) = 0x80 then
       (if nd \<or> r = 0 then Inr 0 else Inl (AssertionFailure ''result == 0''))
     else (if nd then Inr 0
           else Inl (AssertionFailure ''unexpected instruction in __kernel_vsyscall''))) \<and>
   (laid_out addr i is \<and> i + insn_bytes is \<le> 10 \<longrightarrow>
      CountPushInstructions_loop nd addr i r =
      CountPushInstructions_loop nd addr (i + insn_bytes is) (r + pushes is))"
proof -
  have "CountPushInstructions_loop nd addr i r =
    (if \<not> i < 10 then
       (if nd then Inr 0
        else Inl (AssertionFailure ''did not find SYSENTER or SYSCALL in __kernel_vsyscall''))
     else if addr i = 0x89 \<and> addr (i + 1) = 0xE5 then Inr 0
     else if addr i = 0x89 then CountPushInstructions_loop nd addr (i + 2) r
     else if addr i = 0x0F \<and> (addr (i + 1) = 0x34 \<or> addr (i + 1) = 0x05) then Inr r
     else if addr i AND 0xF0 = 0x50 then CountPushInstructions_loop nd addr (i + 1) (r + 1)
     else if addr i = 0xCD \<and> addr (i + 1) = 0x80 then
       (if nd \<or> r = 0 then Inr 0 else Inl (AssertionFailure ''result == 0''))
     else (if nd then Inr 0
           else Inl (AssertionFailure ''unexpected instruction in __kernel_vsyscall'')))"
    by (subst CountPushInstructions_loop.simps) (auto simp: kMaxBytes_def c_assert_def ac_simps)
  then show ?thesis
    using CountPushInstructions_loop_prologue [of addr i "is" nd r] by blast
qed

theorem CountPushInstructions_shapes_witness:
  "laid_out (\<lambda>i. byte_at vsyscall_amd (0xffffe400 + of_int i)) 0 [PushReg, MovReg] \<and>
   CountPushInstructions_loop False (\<lambda>i. byte_at vsyscall_amd (0xffffe400 + of_int i)) 0 0 =
   CountPushInstructions_loop False (\<lambda>i. byte_at vsyscall_amd (0xffffe400 + of_int i)) 3 1 \<and>
   CountPushInstructions_loop False (\<lambda>i. byte_at vsyscall_amd (0xffffe400 + of_int i)) 3 1 =
   Inr 1"
proof -
  let ?addr = "\<lambda>i. byte_at vsyscall_amd (0xffffe400 + of_int i)"
  have l: "laid_out ?addr 0 [PushReg, MovReg]"
    by (simp add: vsyscall_amd_def mem_of_def)
  have "laid_out ?addr 0 [PushReg, MovReg] \<and> 0 + insn_bytes [PushReg, MovReg] \<le> 10"
    using l by simp
  then have "CountPushInstructions_loop False ?addr 0 0 =
             CountPushInstructions_loop False ?addr (0 + insn_bytes [PushReg, MovReg])
               (0 + pushes [PushReg, MovReg])"
    using CountPushInstructions_shapes [of False ?addr 0 0 "[PushReg, MovReg]"] by blast
  moreover have "CountPushInstructions_loop False ?addr 3 1 = Inr 1"
    using CountPushInstructions_shapes [of False ?addr 3 1 "[]"]
    by (simp add: vsyscall_amd_def mem_of_def)
  ultimately show ?thesis using l by simp
qed

subsection \<open>GetFP\<close>

lemma sint_diff_no_overflow:
  fixes bp sp :: "'a::len word"
  assumes "sint bp - sint sp < 2 ^ (LENGTH('a) - 1)" "sint sp \<le> sint bp"
  shows "sint (bp - sp) = sint bp - sint sp"
proof -
  have "- (2 ^ (LENGTH('a) - 1)) \<le> sint bp - sint sp"
    using assms(2) by (smt (verit) zero_le_power)
  then show ?thesis
    using assms(1) by (simp add: sint_word_diff signed_take_bit_int_eq_self)
qed

lemma sint_nonneg_uint:
  fixes w :: "'a::len word"
  assumes "0 \<le> sint w"
  shows "sint w = uint w"
proof -
  have "sint w < 2 ^ (LENGTH('a) - 1)" by (rule sint_lt)
  also have "(2 :: int) ^ (LENGTH('a) - 1) \<le> 2 ^ LENGTH('a)"
    by (rule power_increasing) simp_all
  finally have "take_bit LENGTH('a) (sint w) = sint w"
    using assms by (simp add: take_bit_int_eq_self)
  then show ?thesis by (simp add: uint_sint)
qed

lemma GetFP_addresses:
  fixes uc :: "'a::len ucontext"
  assumes "target_os cfg = Linux" "target_arch cfg \<noteq> OtherArch"
    and "0 \<le> sint (gregs_BP uc)" "0 \<le> sint (gregs_SP uc)"
  shows "GetFP cfg (Some uc) =
        (if gregs_SP uc \<le> gregs_BP uc \<and> uint (gregs_BP uc) - uint (gregs_SP uc) \<le> 100000
         then gregs_BP uc else gregs_SP uc)"
proof -
  have machine: "GetFP cfg (Some uc) =
        (if sint (gregs_SP uc) \<le> sint (gregs_BP uc) \<and>
            sint (gregs_BP uc - gregs_SP uc) \<le> 100000
         then gregs_BP uc else gregs_SP uc)"
    using assms(1,2)
    by (cases "target_arch cfg") (simp_all add: GetFP_def kMaxFrameBytes_def Let_def)
  have b: "sint (gregs_BP uc) = uint (gregs_BP uc)" and s: "sint (gregs_SP uc) = uint (gregs_SP uc)"
    using assms(3,4) by (simp_all add: sint_nonneg_uint)
  have "sint (gregs_BP uc) - sint (gregs_SP uc) < 2 ^ (LENGTH('a) - 1)"
    using sint_lt [of "gregs_BP uc"] assms(4) by linarith
  then have d: "sint (gregs_SP uc) \<le> sint (gregs_BP uc) \<Longrightarrow>
       sint (gregs_BP uc - gregs_SP uc) = uint (gregs_BP uc) - uint (gregs_SP uc)"
    using sint_diff_no_overflow [of "gregs_BP uc" "gregs_SP uc"] b s by simp
  have le: "(sint (gregs_SP uc) \<le> sint (gregs_BP uc)) = (gregs_SP uc \<le> gregs_BP uc)"
    using b s by (simp add: word_le_def)
  show ?thesis using machine d le by auto
qed

text \<open>
  What \<^verbatim>\<open>GetFP\<close> computes: 0 for a null context and on every platform other than
  Linux; on Linux, with the registers of a 32-bit or 64-bit x86 context, \<open>bp\<close> when
  \<open>bp \<ge> sp\<close> and \<open>bp - sp \<le> 100000\<close>, and \<open>sp\<close> otherwise. The comparison and the
  difference are those of the signed register type; the difference is the
  mathematical one whenever that fits the register, and for two registers that are
  not negative the test is the one on the addresses.
\<close>

lemma GetFP_plausibility:
  fixes uc :: "'a::len ucontext"
  shows
  "GetFP cfg (None :: 'a ucontext option) = 0 \<and>
   (target_os cfg \<noteq> Linux \<longrightarrow> GetFP cfg (Some uc) = 0) \<and>
   (target_os cfg = Linux \<and> target_arch cfg \<noteq> OtherArch \<longrightarrow>
      GetFP cfg (Some uc) =
        (if sint (gregs_SP uc) \<le> sint (gregs_BP uc) \<and>
            sint (gregs_BP uc - gregs_SP uc) \<le> 100000
         then gregs_BP uc else gregs_SP uc)) \<and>
   (target_os cfg = Linux \<and> target_arch cfg \<noteq> OtherArch \<and>
    sint (gregs_BP uc) - sint (gregs_SP uc) < 2 ^ (LENGTH('a) - 1) \<longrightarrow>
      GetFP cfg (Some uc) =
        (if sint (gregs_SP uc) \<le> sint (gregs_BP uc) \<and>
            sint (gregs_BP uc) - sint (gregs_SP uc) \<le> 100000
         then gregs_BP uc else gregs_SP uc)) \<and>
   (target_os cfg = Linux \<and> target_arch cfg \<noteq> OtherArch \<and>
    0 \<le> sint (gregs_BP uc) \<and> 0 \<le> sint (gregs_SP uc) \<longrightarrow>
      GetFP cfg (Some uc) =
        (if gregs_SP uc \<le> gregs_BP uc \<and> uint (gregs_BP uc) - uint (gregs_SP uc) \<le> 100000
         then gregs_BP uc else gregs_SP uc))"
proof -
  have machine: "GetFP cfg (Some uc) =
        (if sint (gregs_SP uc) \<le> sint (gregs_BP uc) \<and>
            sint (gregs_BP uc - gregs_SP uc) \<le> 100000
         then gregs_BP uc else gregs_SP uc)"
    if "target_os cfg = Linux" "target_arch cfg \<noteq> OtherArch"
    using that by (cases "target_arch cfg") (simp_all add: GetFP_def kMaxFrameBytes_def Let_def)
  have "GetFP cfg (None :: 'a ucontext option) = 0"
    by (simp add: GetFP_def)
  moreover have "target_os cfg \<noteq> Linux \<longrightarrow> GetFP cfg (Some uc) = 0"
    by (simp add: GetFP_def)
  moreover have "target_os cfg = Linux \<and> target_arch cfg \<noteq> OtherArch \<and>
    sint (gregs_BP uc) - sint (gregs_SP uc) < 2 ^ (LENGTH('a) - 1) \<longrightarrow>
      GetFP cfg (Some uc) =
        (if sint (gregs_SP uc) \<le> sint (gregs_BP uc) \<and>
            sint (gregs_BP uc) - sint (gregs_SP uc) \<le> 100000
         then gregs_BP uc else gregs_SP uc)"
    using machine sint_diff_no_overflow [of "gregs_BP uc" "gregs_SP uc"] by auto
  ultimately show ?thesis using machine GetFP_addresses [of cfg uc] by blast
qed

lemma GetFP_plausibility_example:
  "GetFP linux_x86_64 (Some \<lparr>gregs_BP = 0x7ffc00001040 :: 64 word,
                              gregs_SP = 0x7ffc00001000, gregs_IP = 0x401000\<rparr>)
     = 0x7ffc00001040 \<and>
   GetFP linux_x86_64 (Some \<lparr>gregs_BP = 7 :: 64 word,
                              gregs_SP = 0x7ffc00001000, gregs_IP = 0x401000\<rparr>)
     = 0x7ffc00001000"
  using GetFP_plausibility [of linux_x86_64
          "\<lparr>gregs_BP = 0x7ffc00001040 :: 64 word, gregs_SP = 0x7ffc00001000,
            gregs_IP = 0x401000\<rparr>"]
        GetFP_plausibility [of linux_x86_64
          "\<lparr>gregs_BP = 7 :: 64 word, gregs_SP = 0x7ffc00001000, gregs_IP = 0x401000\<rparr>"]
  by (simp add: linux_x86_64_def)

text \<open>
  C8: the test of the claim is on two addresses, as the comments of \<^verbatim>\<open>GetFP\<close> ask for
  (a frame pointer that is not plausible gives way to the stack pointer, and a frame
  of more than 100000 bytes is bogus) and as \<^verbatim>\<open>NextStackFrame\<close> makes it on
  \<^verbatim>\<open>uintptr_t\<close>. \<^verbatim>\<open>GetFP\<close> makes it on the signed registers, and on 32-bit Linux the
  two differ. With \<open>bp\<close> 32 bytes above \<open>sp\<close>, across \<open>0x80000000\<close>, it returns \<open>sp\<close>;
  with \<open>bp\<close> far below \<open>sp\<close>, where the signed difference wraps, it returns \<open>bp\<close>.
\<close>

theorem GetFP_signed_test_failing_input:
  "GetFP linux_i386
     (Some \<lparr>gregs_BP = 0x80000010 :: 32 word, gregs_SP = 0x7ffffff0, gregs_IP = 0\<rparr>)
     = 0x7ffffff0 \<and>
   (0x7ffffff0 :: 32 word) \<le> 0x80000010 \<and> (0x80000010 :: 32 word) - 0x7ffffff0 = 0x20 \<and>
   GetFP linux_i386
     (Some \<lparr>gregs_BP = 0x40000000 :: 32 word, gregs_SP = 0xbfff0000, gregs_IP = 0\<rparr>)
     = 0x40000000 \<and>
   (0x40000000 :: 32 word) < 0xbfff0000"
  by (simp add: GetFP_def linux_i386_def kMaxFrameBytes_def)


subsection \<open>NextStackFrame\<close>

lemma check_transition_strict:
  assumes "check_transition cfg e True wc A N uc = B" "B \<noteq> 0"
    "\<not> wc \<or> uc = None \<or> B \<noteq> GetFP cfg uc"
  shows "B = N \<and> A < B \<and> B - A \<le> 100000"
  using assms
  by (auto simp: check_transition_def kMaxFrameBytes_def split: if_splits)

lemma NextStackFrame_result:
  "NextStackFrame cfg e s wc st A uc = Inr (st', B) \<Longrightarrow>
   \<exists>N. B = check_transition cfg e s wc A N uc"
  by (auto simp: NextStackFrame_def Let_def split: if_splits sum.splits)

lemma unat_distance:
  fixes A B :: "'a::len word"
  assumes "A < B" "B - A \<le> 100000"
  shows "unat B - unat A \<le> 100000"
proof -
  have "unat (B - A) = unat B - unat A"
    using assms(1) by (simp add: unat_sub word_less_def word_le_def)
  moreover have "unat (B - A) \<le> unat (100000 :: 'a word)"
    using assms(2) by (simp add: word_le_nat_alt)
  moreover have "unat (100000 :: 'a word) \<le> 100000"
    by (metis unat_of_nat mod_less_eq_dividend of_nat_numeral)
  ultimately show ?thesis by linarith
qed

text \<open>
  C2, as the claim states it, fails when a signal context is present: a candidate equal
  to \<^verbatim>\<open>GetFP(uc)\<close> skips the strict checks. Here the frame at \<open>0x2000\<close> links to
  \<open>0x1000\<close>, the frame pointer of the context, and the strict validator accepts the
  step down.
\<close>

theorem NextStackFrame_strict_context_counterexample:
  "NextStackFrame linux_x86_64 (stack_env [(0x2000, 0x1000)]) True True statics_initial
     (0x2000 :: 64 word) (Some \<lparr>gregs_BP = 0x1000, gregs_SP = 0x1000, gregs_IP = 0\<rparr>)
     = Inr (statics_initial, 0x1000) \<and>
   \<not> (0x1000 :: 64 word) > 0x2000"
  by (simp add: NextStackFrame_def check_transition_def GetFP_def linux_x86_64_def
      stack_env_def mem_of_def sizeof_ptr_def)

text \<open>
  C2, amended: in strict mode, every accepted transition from \<open>A\<close> to a non-null \<open>B\<close>
  that is made without a signal context, or to a \<open>B\<close> other than \<^verbatim>\<open>GetFP(uc)\<close>, has
  \<open>B > A\<close> and \<open>B - A \<le> 100000\<close>.
\<close>

theorem NextStackFrame_strict_monotone:
  assumes "NextStackFrame cfg e True wc st A uc = Inr (st', B)" "B \<noteq> 0"
    "\<not> wc \<or> uc = None \<or> B \<noteq> GetFP cfg uc"
  shows "A < B \<and> B - A \<le> 100000 \<and> unat B - unat A \<le> 100000"
proof -
  obtain N where N: "check_transition cfg e True wc A N uc = B"
    using NextStackFrame_result [OF assms(1)] by metis
  have "A < B \<and> B - A \<le> 100000"
    using check_transition_strict [OF N assms(2) assms(3)] by blast
  then show ?thesis using unat_distance by blast
qed

theorem NextStackFrame_strict_monotone_witness:
  "NextStackFrame linux_x86_64 (stack_env [(0x1000, 0x1040)]) True True statics_initial
     (0x1000 :: 64 word) (Some \<lparr>gregs_BP = 0x3000, gregs_SP = 0x3000, gregs_IP = 0\<rparr>)
     = Inr (statics_initial, 0x1040) \<and>
   (0x1000 :: 64 word) < 0x1040 \<and> (0x1040 :: 64 word) - 0x1000 \<le> 100000"
proof -
  have step: "NextStackFrame linux_x86_64 (stack_env [(0x1000, 0x1040)]) True True
     statics_initial (0x1000 :: 64 word)
     (Some \<lparr>gregs_BP = 0x3000, gregs_SP = 0x3000, gregs_IP = 0\<rparr>)
     = Inr (statics_initial, 0x1040)"
    by (simp add: NextStackFrame_def check_transition_def GetFP_def linux_x86_64_def
        stack_env_def mem_of_def sizeof_ptr_def kMaxFrameBytes_def)
  have other: "\<not> True \<or> Some \<lparr>gregs_BP = 0x3000 :: 64 word, gregs_SP = 0x3000, gregs_IP = 0\<rparr> = None
     \<or> (0x1040 :: 64 word) \<noteq> GetFP linux_x86_64
          (Some \<lparr>gregs_BP = 0x3000, gregs_SP = 0x3000, gregs_IP = 0\<rparr>)"
    by (simp add: GetFP_def linux_x86_64_def kMaxFrameBytes_def)
  show ?thesis
    using NextStackFrame_strict_monotone [OF step _ other] step by simp
qed






subsection \<open>UnwindImpl: the statics and the assertions\<close>

lemma CountPushInstructions_loop_NDEBUG:
  "\<exists>c. CountPushInstructions_loop True addr i r = Inr c"
proof (induction "True" addr i r rule: CountPushInstructions_loop.induct)
  case (1 addr i result)
  show ?case
    using 1
    by (subst CountPushInstructions_loop.simps) (simp add: c_assert_def)
qed

text \<open>
  The assertions hold under \<^verbatim>\<open>NDEBUG\<close>, on every target other than 32-bit Linux, in
  every call without a signal context, and once the statics are computed.
\<close>

lemma asserts_hold_NDEBUG:
  assumes "NDEBUG cfg"
  shows "asserts_hold cfg e wc uc st"
proof -
  obtain c where "CountPushInstructions cfg e (the (vdso_kernel_vsyscall e)) = Inr c"
    using CountPushInstructions_loop_NDEBUG assms
    by (metis CountPushInstructions_def)
  then show ?thesis
    using assms by (simp add: asserts_hold_def init_statics_def c_assert_def)
qed

lemma asserts_hold_other_calls:
  assumes "\<not> (target_os cfg = Linux \<and> target_arch cfg = I386 \<and> wc \<and> uc \<noteq> None) \<or>
           num_push_instructions st \<noteq> -1"
  shows "asserts_hold cfg e wc uc st"
  using assms by (auto simp: asserts_hold_def init_statics_def)

lemma init_statics_computed:
  assumes "init_statics cfg e st = Inr st'"
  shows "num_push_instructions st' \<noteq> -1"
proof -
  have "0 \<le> c" if "CountPushInstructions cfg e a = Inr c" for a c
    using that CountPushInstructions_loop_nonneg [of 0] by (simp add: CountPushInstructions_def)
  then show ?thesis
    using assms
    by (fastforce simp: init_statics_def c_assert_def split: if_splits sum.splits)
qed

lemma init_statics_again:
  assumes "init_statics cfg e st = Inr st'"
  shows "init_statics cfg e st' = Inr st'"
  using init_statics_computed [OF assms] by (simp add: init_statics_def)

lemma NextStackFrame_total:
  assumes "asserts_hold cfg e wc uc st"
  shows "\<exists>st' f. NextStackFrame cfg e strict wc st fp uc = Inr (st', f) \<and>
                 asserts_hold cfg e wc uc st'"
proof (cases "target_os cfg = Linux \<and> target_arch cfg = I386 \<and> wc \<and> uc \<noteq> None")
  case True
  then obtain st' where i: "init_statics cfg e st = Inr st'"
    using assms by (auto simp: asserts_hold_def split: sum.splits)
  then have "asserts_hold cfg e wc uc st'"
    using init_statics_again [OF i] by (simp add: asserts_hold_def)
  then show ?thesis using True i by (simp add: NextStackFrame_def Let_def)
next
  case False
  then show ?thesis using assms by (auto simp: NextStackFrame_def Let_def asserts_hold_def)
qed

lemma UnwindImpl_body_total:
  assumes "asserts_hold cfg e iwc ucp (l_statics s)"
  shows "\<exists>s1. UnwindImpl_body cfg e isf iwc ucp s = Inr s1 \<and>
              asserts_hold cfg e iwc ucp (l_statics s1)"
proof -
  obtain st' f where
    "NextStackFrame cfg e (\<not> isf) iwc (l_statics s) (l_fp s) ucp = Inr (st', f)"
    "asserts_hold cfg e iwc ucp st'"
    using NextStackFrame_total [OF assms] by blast
  then show ?thesis by (simp add: UnwindImpl_body_def)
qed

lemma UnwindImpl_loop_total:
  "asserts_hold cfg e iwc ucp (l_statics s) \<Longrightarrow>
   \<exists>s'. UnwindImpl_loop cfg e isf iwc ucp max_depth s = Inr s' \<and>
        asserts_hold cfg e iwc ucp (l_statics s')"
proof (induction cfg e isf iwc ucp max_depth s rule: UnwindImpl_loop.induct)
  case (1 cfg e isf iwc ucp max_depth s)
  show ?case
  proof (cases "l_fp s \<noteq> 0 \<and> l_n s < max_depth \<and> word_at e (l_fp s + sizeof_ptr) \<noteq> 0")
    case False
    then have "UnwindImpl_loop cfg e isf iwc ucp max_depth s = Inr s"
      by (subst UnwindImpl_loop.simps) auto
    then show ?thesis using "1.prems" by simp
  next
    case True
    obtain s1 where b: "UnwindImpl_body cfg e isf iwc ucp s = Inr s1"
      and a: "asserts_hold cfg e iwc ucp (l_statics s1)"
      using UnwindImpl_body_total [OF "1.prems"] by blast
    have "UnwindImpl_loop cfg e isf iwc ucp max_depth s =
          UnwindImpl_loop cfg e isf iwc ucp max_depth s1"
      using True b by (subst UnwindImpl_loop.simps) simp
    then show ?thesis using "1.IH" [OF _ _ b a] True by simp
  qed
qed

lemma count_dropped_total:
  "asserts_hold cfg e iwc ucp st \<Longrightarrow>
   \<exists>st' fp' j'. count_dropped cfg e isf iwc ucp st fp j = Inr (st', fp', j')"
proof (induction cfg e isf iwc ucp st fp j rule: count_dropped.induct)
  case (1 cfg e isf iwc ucp st fp j)
  show ?case
  proof (cases "fp \<noteq> 0 \<and> j < kMaxUnwind")
    case False
    then show ?thesis by (subst count_dropped.simps) auto
  next
    case True
    obtain st1 f1 where n: "NextStackFrame cfg e (\<not> isf) iwc st fp ucp = Inr (st1, f1)"
      and a: "asserts_hold cfg e iwc ucp st1"
      using NextStackFrame_total [OF "1.prems"] by blast
    have "count_dropped cfg e isf iwc ucp st fp j =
          count_dropped cfg e isf iwc ucp st1 f1 (j + 1)"
      using True n by (subst count_dropped.simps) simp
    then show ?thesis using "1.IH" [OF True n refl a] by simp
  qed
qed


subsection \<open>UnwindImpl: the capture loop\<close>

lemma UnwindImpl_body_cases:
  assumes "UnwindImpl_body cfg e isf iwc ucp s = Inr s1"
  shows "\<exists>st' nf. NextStackFrame cfg e (\<not> isf) iwc (l_statics s) (l_fp s) ucp = Inr (st', nf) \<and>
     l_fp s1 = nf \<and> l_statics s1 = st' \<and>
     (if l_skip_count s > 0 then
        l_n s1 = l_n s \<and> l_skip_count s1 = l_skip_count s - 1 \<and>
        l_result s1 = l_result s \<and> l_sizes s1 = l_sizes s
      else
        l_n s1 = l_n s + 1 \<and> l_skip_count s1 = l_skip_count s \<and>
        l_result s1 = (l_result s)(l_n s := word_at e (l_fp s + sizeof_ptr)) \<and>
        l_sizes s1 = (if isf then (l_sizes s)(l_n s :=
                          (if nf > l_fp s then int_of_uintptr (nf - l_fp s) else 0))
                      else l_sizes s))"
  using assms
  by (auto simp: UnwindImpl_body_def split: sum.splits prod.splits if_splits)

lemma UnwindImpl_loop_invariant:
  assumes "UnwindImpl_loop cfg e isf iwc ucp max_depth s = Inr s'" and "I s"
    and step: "\<And>t t'. I t \<Longrightarrow> l_fp t \<noteq> 0 \<Longrightarrow> l_n t < max_depth \<Longrightarrow>
                 word_at e (l_fp t + sizeof_ptr) \<noteq> 0 \<Longrightarrow>
                 UnwindImpl_body cfg e isf iwc ucp t = Inr t' \<Longrightarrow> I t'"
  shows "I s' \<and> (l_fp s' = 0 \<or> \<not> l_n s' < max_depth \<or> word_at e (l_fp s' + sizeof_ptr) = 0)"
  using assms
proof (induction cfg e isf iwc ucp max_depth s rule: UnwindImpl_loop.induct)
  case (1 cfg e isf iwc ucp max_depth s)
  show ?case
  proof (cases "l_fp s \<noteq> 0 \<and> l_n s < max_depth \<and> word_at e (l_fp s + sizeof_ptr) \<noteq> 0")
    case False
    then have "s' = s"
      using "1.prems"(1) by (subst (asm) UnwindImpl_loop.simps) (auto split: if_splits)
    then show ?thesis using False "1.prems"(2) by blast
  next
    case True
    then obtain s1 where b: "UnwindImpl_body cfg e isf iwc ucp s = Inr s1"
      and l: "UnwindImpl_loop cfg e isf iwc ucp max_depth s1 = Inr s'"
      using "1.prems"(1) by (subst (asm) UnwindImpl_loop.simps) (auto split: sum.splits)
    have "I s1" using "1.prems"(3) [OF "1.prems"(2) _ _ _ b] True by blast
    then show ?thesis
      using "1.IH" [OF _ _ b l] True "1.prems"(3) by blast
  qed
qed


lemma UnwindImpl_loop_walk:
  fixes e :: "'a::len env"
  assumes run: "UnwindImpl_loop cfg e isf iwc ucp max_depth
             \<lparr>l_fp = fp0, l_n = 0, l_skip_count = skip0, l_result = result,
              l_sizes = sizes, l_statics = st0\<rparr> = Inr s'"
  shows "0 \<le> l_n s' \<and> l_n s' \<le> max 0 max_depth \<and>
         max 0 (l_skip_count s') \<le> max 0 skip0 \<and> (0 < l_n s' \<longrightarrow> l_skip_count s' \<le> 0)"
    (is ?bounds)
    and "walk cfg e (\<not> isf) iwc ucp st0 fp0
           (nat (max 0 skip0 - max 0 (l_skip_count s') + l_n s')) = Inr (l_statics s', l_fp s')"
    (is ?position)
    and "\<forall>k < nat (max 0 skip0 - max 0 (l_skip_count s') + l_n s').
           \<exists>st f. walk cfg e (\<not> isf) iwc ucp st0 fp0 k = Inr (st, f) \<and> f \<noteq> 0 \<and>
                  word_at e (f + sizeof_ptr) \<noteq> 0"
    (is ?valid)
    and "(\<forall>i. i < 0 \<or> l_n s' \<le> i \<longrightarrow> l_result s' i = result i \<and> l_sizes s' i = sizes i) \<and>
         (\<not> isf \<longrightarrow> l_sizes s' = sizes)"
    (is ?slots)
    and "\<forall>i. 0 \<le> i \<and> i < l_n s' \<longrightarrow>
           (\<exists>st f st' f'.
              walk cfg e (\<not> isf) iwc ucp st0 fp0 (nat (max 0 skip0 + i)) = Inr (st, f) \<and>
              NextStackFrame cfg e (\<not> isf) iwc st f ucp = Inr (st', f') \<and>
              f \<noteq> 0 \<and> word_at e (f + sizeof_ptr) \<noteq> 0 \<and>
              l_result s' i = word_at e (f + sizeof_ptr) \<and>
              (isf \<longrightarrow> l_sizes s' i = (if f' > f then int_of_uintptr (f' - f) else 0)))"
    (is ?recorded)
    and "l_fp s' = 0 \<or> \<not> l_n s' < max_depth \<or> word_at e (l_fp s' + sizeof_ptr) = 0"
    (is ?exit)
proof -
  define W where "W = walk cfg e (\<not> isf) iwc ucp st0 fp0"
  define sk where "sk = max 0 skip0"
  define pos where "pos = (\<lambda>t :: 'a locals. nat (sk - max 0 (l_skip_count t) + l_n t))"
  define ret where "ret = (\<lambda>f. word_at e (f + sizeof_ptr))"
  define B where "B = (\<lambda>t :: 'a locals. 0 \<le> l_n t \<and> l_n t \<le> max 0 max_depth \<and>
     max 0 (l_skip_count t) \<le> sk \<and> (0 < l_n t \<longrightarrow> l_skip_count t \<le> 0))"
  define P where "P = (\<lambda>t. W (pos t) = Inr (l_statics t, l_fp t))"
  define V where "V = (\<lambda>t. \<forall>k < pos t. \<exists>st f. W k = Inr (st, f) \<and> f \<noteq> 0 \<and> ret f \<noteq> 0)"
  define S where "S = (\<lambda>t :: 'a locals.
     (\<forall>i. i < 0 \<or> l_n t \<le> i \<longrightarrow> l_result t i = result i \<and> l_sizes t i = sizes i) \<and>
     (\<not> isf \<longrightarrow> l_sizes t = sizes))"
  define Rec where "Rec = (\<lambda>(t :: 'a locals) i. \<exists>st f st' f'.
              W (nat (sk + i)) = Inr (st, f) \<and>
              NextStackFrame cfg e (\<not> isf) iwc st f ucp = Inr (st', f') \<and>
              f \<noteq> 0 \<and> ret f \<noteq> 0 \<and> l_result t i = ret f \<and>
              (isf \<longrightarrow> l_sizes t i = (if f' > f then int_of_uintptr (f' - f) else 0)))"
  define R where "R = (\<lambda>t. \<forall>i. 0 \<le> i \<and> i < l_n t \<longrightarrow> Rec t i)"
  define I where "I = (\<lambda>t. B t \<and> P t \<and> V t \<and> S t \<and> R t)"
  let ?s0 = "\<lparr>l_fp = fp0, l_n = 0, l_skip_count = skip0, l_result = result,
              l_sizes = sizes, l_statics = st0\<rparr>"
  have init: "I ?s0"
    by (auto simp: I_def B_def P_def V_def S_def R_def pos_def sk_def W_def)
  have step: "I t'"
    if inv: "I t" and c: "l_fp t \<noteq> 0" "l_n t < max_depth" "word_at e (l_fp t + sizeof_ptr) \<noteq> 0"
      and b: "UnwindImpl_body cfg e isf iwc ucp t = Inr t'" for t t'
  proof -
    have parts: "B t" "P t" "V t" "S t" "R t"
      using inv by (simp_all add: I_def)
    have Bt: "0 \<le> l_n t" "max 0 (l_skip_count t) \<le> sk" "0 < l_n t \<longrightarrow> l_skip_count t \<le> 0"
      using parts(1) unfolding B_def by blast+
    have Pt: "W (pos t) = Inr (l_statics t, l_fp t)"
      using parts(2) unfolding P_def .
    have Vt: "\<exists>st f. W k = Inr (st, f) \<and> f \<noteq> 0 \<and> ret f \<noteq> 0" if "k < pos t" for k
      using parts(3) that unfolding V_def by blast
    have St: "l_result t i = result i \<and> l_sizes t i = sizes i" if "i < 0 \<or> l_n t \<le> i" for i
      using parts(4) that unfolding S_def by blast
    have St2: "\<not> isf \<longrightarrow> l_sizes t = sizes"
      using parts(4) unfolding S_def by blast
    have Rt: "Rec t i" if "0 \<le> i" "i < l_n t" for i
      using parts(5) that unfolding R_def by blast
    obtain st' nf where
      nsf: "NextStackFrame cfg e (\<not> isf) iwc (l_statics t) (l_fp t) ucp = Inr (st', nf)"
      and t': "l_fp t' = nf" "l_statics t' = st'"
      and upd: "if l_skip_count t > 0 then
        l_n t' = l_n t \<and> l_skip_count t' = l_skip_count t - 1 \<and>
        l_result t' = l_result t \<and> l_sizes t' = l_sizes t
      else
        l_n t' = l_n t + 1 \<and> l_skip_count t' = l_skip_count t \<and>
        l_result t' = (l_result t)(l_n t := word_at e (l_fp t + sizeof_ptr)) \<and>
        l_sizes t' = (if isf then (l_sizes t)(l_n t :=
                          (if nf > l_fp t then int_of_uintptr (nf - l_fp t) else 0))
                      else l_sizes t)"
      using UnwindImpl_body_cases [OF b] by blast
    have pos': "pos t' = Suc (pos t)"
      using upd Bt by (auto simp: pos_def split: if_splits)
    have B': "B t'"
      using upd Bt c(2) by (auto simp: B_def split: if_splits)
    have P': "P t'"
      using Pt nsf t' by (simp add: P_def pos' W_def)
    have V': "V t'"
      unfolding V_def pos'
    proof (intro allI impI)
      fix k assume "k < Suc (pos t)"
      then consider "k < pos t" | "k = pos t" by linarith
      then show "\<exists>st f. W k = Inr (st, f) \<and> f \<noteq> 0 \<and> ret f \<noteq> 0"
      proof cases
        case 1 then show ?thesis using Vt by blast
      next
        case 2 then show ?thesis using Pt c by (simp add: ret_def)
      qed
    qed
    show ?thesis
    proof (cases "l_skip_count t > 0")
      case True
      then have same: "l_n t' = l_n t" "l_result t' = l_result t" "l_sizes t' = l_sizes t"
        using upd by simp_all
      have "S t'" using St St2 by (simp add: S_def same)
      moreover have "R t'" using Rt by (simp add: R_def Rec_def same)
      ultimately show ?thesis using B' P' V' by (simp add: I_def)
    next
      case False
      then have n': "l_n t' = l_n t + 1"
        and r': "l_result t' = (l_result t)(l_n t := ret (l_fp t))"
        and z': "l_sizes t' = (if isf then (l_sizes t)(l_n t :=
                          (if nf > l_fp t then int_of_uintptr (nf - l_fp t) else 0))
                      else l_sizes t)"
        using upd by (simp_all add: ret_def)
      have other: "l_result t' i = l_result t i \<and> l_sizes t' i = l_sizes t i" if "i \<noteq> l_n t" for i
        using that r' z' by simp
      have "S t'"
        unfolding S_def
      proof (intro conjI allI impI)
        fix i assume i: "i < 0 \<or> l_n t' \<le> i"
        then have "i \<noteq> l_n t" "i < 0 \<or> l_n t \<le> i" using n' Bt(1) by auto
        then show "l_result t' i = result i" "l_sizes t' i = sizes i"
          using other St by simp_all
      next
        assume "\<not> isf" then show "l_sizes t' = sizes" using z' St2 by simp
      qed
      moreover have "R t'"
        unfolding R_def
      proof (intro allI impI)
        fix i assume i: "0 \<le> i \<and> i < l_n t'"
        show "Rec t' i"
        proof (cases "i = l_n t")
          case True
          have "pos t = nat (sk + i)" using False True by (simp add: pos_def)
          then have "W (nat (sk + i)) = Inr (l_statics t, l_fp t)" using Pt by simp
          moreover have "l_result t' i = ret (l_fp t)" using r' True by simp
          moreover have "isf \<longrightarrow> l_sizes t' i =
             (if nf > l_fp t then int_of_uintptr (nf - l_fp t) else 0)"
            using z' True by simp
          ultimately show ?thesis
            unfolding Rec_def using nsf c by (auto simp: ret_def)
        next
          case False
          then have "Rec t i" using Rt i n' by simp
          then show ?thesis using other [OF False] by (simp add: Rec_def)
        qed
      qed
      ultimately show ?thesis using B' P' V' by (simp add: I_def)
    qed
  qed
  have fin: "I s' \<and> (l_fp s' = 0 \<or> \<not> l_n s' < max_depth \<or> word_at e (l_fp s' + sizeof_ptr) = 0)"
  proof (rule UnwindImpl_loop_invariant [where I = I, OF run init])
    fix t t'
    assume "I t" "l_fp t \<noteq> 0" "l_n t < max_depth" "word_at e (l_fp t + sizeof_ptr) \<noteq> 0"
      "UnwindImpl_body cfg e isf iwc ucp t = Inr t'"
    then show "I t'" by (rule step)
  qed
  show ?bounds using fin by (simp add: I_def B_def sk_def)
  show ?position using fin by (simp add: I_def P_def pos_def sk_def W_def)
  show ?valid using fin by (simp add: I_def V_def pos_def sk_def W_def ret_def)
  show ?slots using fin by (simp add: I_def S_def)
  show ?recorded using fin by (simp add: I_def R_def Rec_def sk_def W_def ret_def)
  show ?exit using fin by blast
qed

subsection \<open>UnwindImpl: the frame sizes\<close>

lemma uint_below_2_31:
  fixes w :: "'a::len word"
  assumes "unat w < 2 ^ 31"
  shows "uint w < 2 ^ 31"
proof -
  have "int (unat w) < int (2 ^ 31)" using assms by (simp only: of_nat_less_iff)
  then show ?thesis unfolding uint_nat by (simp only: of_nat_power of_nat_numeral)
qed

lemma int_of_uintptr_small:
  fixes w :: "'a::len word"
  assumes "unat w < 2 ^ 31"
  shows "int_of_uintptr w = int (unat w)"
proof -
  have u: "uint w < 2 ^ 31" using assms by (rule uint_below_2_31)
  have "uint (ucast w :: 32 word) = take_bit 32 (uint w)"
    by (simp add: unsigned_ucast_eq)
  also have "\<dots> = uint w"
    using u by (simp add: take_bit_int_eq_self)
  finally have "sint (ucast w :: 32 word) = signed_take_bit 31 (uint w)"
    by (simp add: sint_uint)
  also have "\<dots> = uint w"
  proof (rule signed_take_bit_int_eq_self)
    have "- (2 ^ 31) \<le> (0 :: int)" by simp
    also have "0 \<le> uint w" by simp
    finally show "- (2 ^ 31) \<le> uint w" .
    show "uint w < 2 ^ 31" by (rule u)
  qed
  finally show ?thesis by (simp add: int_of_uintptr_def)
qed

subsection \<open>UnwindImpl: the count of dropped frames\<close>

lemma count_dropped_invariant:
  assumes "count_dropped cfg e isf iwc ucp st fp j = Inr (st', fp', j')" and "I st fp j"
    and step: "\<And>st fp j st1 fp1. I st fp j \<Longrightarrow> fp \<noteq> 0 \<Longrightarrow> j < kMaxUnwind \<Longrightarrow>
                 NextStackFrame cfg e (\<not> isf) iwc st fp ucp = Inr (st1, fp1) \<Longrightarrow>
                 I st1 fp1 (j + 1)"
  shows "I st' fp' j' \<and> (fp' = 0 \<or> \<not> j' < kMaxUnwind)"
  using assms
proof (induction cfg e isf iwc ucp st fp j rule: count_dropped.induct)
  case (1 cfg e isf iwc ucp st fp j)
  show ?case
  proof (cases "fp \<noteq> 0 \<and> j < kMaxUnwind")
    case False
    then have "st' = st \<and> fp' = fp \<and> j' = j"
      using "1.prems"(1) by (subst (asm) count_dropped.simps) (auto split: if_splits)
    then show ?thesis using False "1.prems"(2) by blast
  next
    case True
    then obtain st1 fp1 where
      n: "NextStackFrame cfg e (\<not> isf) iwc st fp ucp = Inr (st1, fp1)"
      and l: "count_dropped cfg e isf iwc ucp st1 fp1 (j + 1) = Inr (st', fp', j')"
      using "1.prems"(1) by (subst (asm) count_dropped.simps) (auto split: sum.splits)
    have "I st1 fp1 (j + 1)" using "1.prems"(3) [OF "1.prems"(2) _ _ n] True by blast
    then show ?thesis
      using "1.IH" [OF True n refl l] "1.prems"(3) by blast
  qed
qed

lemma count_dropped_walk:
  fixes e :: "'a::len env"
  assumes run: "count_dropped cfg e isf iwc ucp st fp 0 = Inr (st', fp', j)"
  shows "0 \<le> j \<and> j \<le> 1000" (is ?bounds)
    and "walk cfg e (\<not> isf) iwc ucp st fp (nat j) = Inr (st', fp')" (is ?position)
    and "\<forall>m < nat j. \<exists>st1 f. walk cfg e (\<not> isf) iwc ucp st fp m = Inr (st1, f) \<and> f \<noteq> 0"
      (is ?steps)
    and "fp' = 0 \<or> j = 1000" (is ?exit)
proof -
  define W where "W = walk cfg e (\<not> isf) iwc ucp st fp"
  define I where "I = (\<lambda>(st1 :: 'a statics) (f1 :: 'a word) j1.
     0 \<le> j1 \<and> j1 \<le> kMaxUnwind \<and> W (nat j1) = Inr (st1, f1) \<and>
     (\<forall>m < nat j1. \<exists>st2 f. W m = Inr (st2, f) \<and> f \<noteq> 0))"
  have init: "I st fp 0" by (simp add: I_def W_def kMaxUnwind_def)
  have fin: "I st' fp' j \<and> (fp' = 0 \<or> \<not> j < kMaxUnwind)"
  proof (rule count_dropped_invariant [where I = I, OF run init])
    fix st1 f1 j1 st2 f2
    assume inv: "I st1 f1 j1" and c: "f1 \<noteq> 0" "j1 < kMaxUnwind"
      and n: "NextStackFrame cfg e (\<not> isf) iwc st1 f1 ucp = Inr (st2, f2)"
    have j1: "0 \<le> j1" and w: "W (nat j1) = Inr (st1, f1)"
      and pre: "\<And>m. m < nat j1 \<Longrightarrow> \<exists>st2 f. W m = Inr (st2, f) \<and> f \<noteq> 0"
      using inv unfolding I_def by blast+
    have suc: "nat (j1 + 1) = Suc (nat j1)" using j1 by simp
    have "W (Suc (nat j1)) = Inr (st2, f2)" using w n by (simp add: W_def)
    moreover have "\<exists>st2 f. W m = Inr (st2, f) \<and> f \<noteq> 0" if "m < Suc (nat j1)" for m
    proof (cases "m = nat j1")
      case True then show ?thesis using w c(1) by simp
    next
      case False then show ?thesis using pre that by simp
    qed
    ultimately show "I st2 f2 (j1 + 1)"
      unfolding I_def suc using j1 c(2) by simp
  qed
  show ?bounds using fin by (simp add: I_def kMaxUnwind_def)
  show ?position using fin by (simp add: I_def W_def)
  show ?steps using fin by (simp add: I_def W_def)
  show ?exit using fin by (auto simp: I_def kMaxUnwind_def)
qed

lemma UnwindImpl_returns:
  assumes "asserts_hold cfg e iwc ucp st"
  shows "\<exists>s r. UnwindImpl_loop cfg e isf iwc ucp max_depth
             \<lparr>l_fp = fp0, l_n = 0, l_skip_count = skip_count, l_result = result,
              l_sizes = sizes, l_statics = st\<rparr> = Inr s \<and>
           UnwindImpl cfg e isf iwc fp0 st result sizes max_depth skip_count ucp mdf = Inr r \<and>
           returned r = l_n s \<and> result_out r = l_result s \<and> sizes_out r = l_sizes s \<and>
           (case mdf of
              None \<Rightarrow> min_dropped_frames_out r = None
            | Some old \<Rightarrow>
                (\<exists>st' fp' j. count_dropped cfg e isf iwc ucp (l_statics s) (l_fp s) 0
                                = Inr (st', fp', j) \<and>
                             min_dropped_frames_out r = Some j))"
proof -
  let ?s0 = "\<lparr>l_fp = fp0, l_n = 0, l_skip_count = skip_count, l_result = result,
              l_sizes = sizes, l_statics = st\<rparr>"
  have "asserts_hold cfg e iwc ucp (l_statics ?s0)" using assms by simp
  then obtain s where s: "UnwindImpl_loop cfg e isf iwc ucp max_depth ?s0 = Inr s"
    and a: "asserts_hold cfg e iwc ucp (l_statics s)"
    using UnwindImpl_loop_total by blast
  show ?thesis
  proof (cases mdf)
    case None
    then show ?thesis using s by (simp add: UnwindImpl_def)
  next
    case (Some old)
    obtain st' fp' j where
      "count_dropped cfg e isf iwc ucp (l_statics s) (l_fp s) 0 = Inr (st', fp', j)"
      using count_dropped_total [OF a] by blast
    then show ?thesis using s Some by (simp add: UnwindImpl_def)
  qed
qed


text \<open>A call that does not return has met a failing assertion.\<close>

lemma UnwindImpl_fails_only_on_assert:
  assumes "UnwindImpl cfg e isf iwc frame_address st result sizes max_depth skip_count ucp mdf
           = Inl err"
  shows "\<not> asserts_hold cfg e iwc ucp st"
proof
  assume "asserts_hold cfg e iwc ucp st"
  then obtain r where
    "UnwindImpl cfg e isf iwc frame_address st result sizes max_depth skip_count ucp mdf = Inr r"
    using UnwindImpl_returns by blast
  then show False using assms by simp
qed

subsection \<open>UnwindImpl on the stacks of the test scenarios\<close>






subsection \<open>UnwindImpl: the claims on the capture loop\<close>

lemma UnwindImpl_loop_break:
  "word_at e (l_fp s + sizeof_ptr) = 0 \<Longrightarrow>
   UnwindImpl_loop cfg e isf iwc ucp max_depth s = Inr s"
  by (subst UnwindImpl_loop.simps) simp

lemmas unwind_eval =
  UnwindImpl_def UnwindImpl_loop.simps UnwindImpl_body_def NextStackFrame_def
  check_transition_def count_dropped.simps int_of_uintptr_def
  linux_x86_64_def stack_env_def mem_of_def sizeof_ptr_def kMaxFrameBytes_def kMaxUnwind_def

text \<open>
  C1: for every \<open>max_depth \<ge> 0\<close>, every \<open>skip_count\<close> and every memory, a call of
  \<^verbatim>\<open>UnwindImpl\<close> in which no assertion of the vsyscall decoder fails returns a count
  \<open>n\<close> with \<open>0 \<le> n \<le> max_depth\<close>, and leaves every slot of \<^verbatim>\<open>result\<close> outside
  \<open>0..n-1\<close> as it was.
\<close>

theorem UnwindImpl_count_bounded:
  fixes e :: "'a::len env"
  assumes "0 \<le> max_depth" "asserts_hold cfg e iwc ucp st"
  shows "\<exists>r. UnwindImpl cfg e isf iwc frame_address st result sizes max_depth skip_count
                ucp mdf = Inr r \<and>
             0 \<le> returned r \<and> returned r \<le> max_depth \<and>
             (\<forall>i. i < 0 \<or> returned r \<le> i \<longrightarrow> result_out r i = result i)"
proof -
  obtain s r where
    s: "UnwindImpl_loop cfg e isf iwc ucp max_depth
             \<lparr>l_fp = frame_address, l_n = 0, l_skip_count = skip_count, l_result = result,
              l_sizes = sizes, l_statics = st\<rparr> = Inr s"
    and r: "UnwindImpl cfg e isf iwc frame_address st result sizes max_depth skip_count
              ucp mdf = Inr r"
      "returned r = l_n s" "result_out r = l_result s"
    using UnwindImpl_returns [OF assms(2)] by blast
  have "0 \<le> l_n s \<and> l_n s \<le> max 0 max_depth"
    using UnwindImpl_loop_walk(1) [OF s] by blast
  moreover have "\<forall>i. i < 0 \<or> l_n s \<le> i \<longrightarrow> l_result s i = result i"
    using UnwindImpl_loop_walk(4) [OF s] by blast
  ultimately show ?thesis using r assms(1) by auto
qed

theorem UnwindImpl_count_bounded_witness:
  "\<exists>r. UnwindImpl linux_x86_64 three_frames False False 0x7000 statics_initial
           (\<lambda>i. 0) (\<lambda>i. 0) 2 0 None None = Inr r \<and>
       returned r = 2 \<and> result_out r 0 = 0x401000 \<and> result_out r 1 = 0x401100 \<and>
       result_out r 2 = 0 \<and>
       (\<forall>i. i < 0 \<or> returned r \<le> i \<longrightarrow> result_out r i = 0)"
  using UnwindImpl_count_bounded [where max_depth = 2 and cfg = linux_x86_64
          and e = three_frames and iwc = False and ucp = None and st = statics_initial
          and isf = False and frame_address = "0x7000" and result = "\<lambda>i. 0"
          and sizes = "\<lambda>i. 0" and skip_count = 0 and mdf = None]
  by (simp add: asserts_hold_def unwind_eval three_frames_def)

text \<open>
  C7: when the return-address slot \<open>fp + 1\<close> of the current frame reads as null, the
  capture loop ends in the state it is in: the validator is not called, nothing is
  skipped and nothing is recorded. So, in a call in which no assertion fails, every
  return address in the slots \<open>0..n-1\<close> of the output is non-null.
\<close>

theorem UnwindImpl_null_return_address:
  fixes e :: "'a::len env"
  assumes "asserts_hold cfg e iwc ucp st"
  shows "(word_at e (l_fp s + sizeof_ptr) = 0 \<longrightarrow>
            UnwindImpl_loop cfg e isf iwc ucp max_depth s = Inr s) \<and>
         (\<exists>r. UnwindImpl cfg e isf iwc frame_address st result sizes max_depth skip_count
                  ucp mdf = Inr r \<and>
              (\<forall>i. 0 \<le> i \<and> i < returned r \<longrightarrow> result_out r i \<noteq> 0))"
proof -
  obtain t r where
    t: "UnwindImpl_loop cfg e isf iwc ucp max_depth
             \<lparr>l_fp = frame_address, l_n = 0, l_skip_count = skip_count, l_result = result,
              l_sizes = sizes, l_statics = st\<rparr> = Inr t"
    and r: "UnwindImpl cfg e isf iwc frame_address st result sizes max_depth skip_count
              ucp mdf = Inr r"
      "returned r = l_n t" "result_out r = l_result t"
    using UnwindImpl_returns [OF assms] by blast
  have "l_result t i \<noteq> 0" if "0 \<le> i" "i < l_n t" for i
    using UnwindImpl_loop_walk(5) [OF t] that by fastforce
  then show ?thesis using r UnwindImpl_loop_break by fastforce
qed

theorem UnwindImpl_null_return_address_witness:
  "UnwindImpl_loop linux_x86_64 three_frames False False None 5
     \<lparr>l_fp = 0x9000, l_n = 1, l_skip_count = 2, l_result = (\<lambda>i. 0), l_sizes = (\<lambda>i. 0),
      l_statics = statics_initial\<rparr>
   = Inr \<lparr>l_fp = 0x9000, l_n = 1, l_skip_count = 2, l_result = (\<lambda>i. 0), l_sizes = (\<lambda>i. 0),
          l_statics = statics_initial\<rparr> \<and>
   (\<exists>r. UnwindImpl linux_x86_64 three_frames False False 0x7000 statics_initial
           (\<lambda>i. 0) (\<lambda>i. 0) 5 0 None None = Inr r \<and> returned r = 3 \<and>
        (\<forall>i. 0 \<le> i \<and> i < returned r \<longrightarrow> result_out r i \<noteq> 0))"
  using UnwindImpl_null_return_address [where cfg = linux_x86_64
          and e = three_frames and iwc = False and ucp = None and st = statics_initial
          and isf = False and frame_address = "0x7000" and result = "\<lambda>i. 0"
          and sizes = "\<lambda>i. 0" and skip_count = 0 and mdf = None and max_depth = 5
          and s = "\<lparr>l_fp = 0x9000, l_n = 1, l_skip_count = 2, l_result = (\<lambda>i. 0),
                    l_sizes = (\<lambda>i. 0), l_statics = statics_initial\<rparr>"]
  by (simp add: asserts_hold_def unwind_eval three_frames_def)


text \<open>
  C5, as the claim states it, fails: \<^verbatim>\<open>sizes\<close> is an array of \<^verbatim>\<open>int\<close>, and the difference
  of the two frame pointers is narrowed to it. Here the next frame lies \<open>2\<^sup>3\<^sup>1\<close> bytes
  above the current one, the lax validator accepts it, and the size recorded is
  \<open>-2\<^sup>3\<^sup>1\<close>.
\<close>

theorem UnwindImpl_frame_size_counterexample:
  "NextStackFrame linux_x86_64 far_frame False False statics_initial 0x1000 None
     = Inr (statics_initial, 0x80001000) \<and>
   (0x1000 :: 64 word) < 0x80001000 \<and>
   unat (0x80001000 :: 64 word) - unat (0x1000 :: 64 word) = 2147483648 \<and>
   (\<exists>r. UnwindImpl linux_x86_64 far_frame True False 0x1000 statics_initial
           (\<lambda>i. 0) (\<lambda>i. 0) 1 0 None None = Inr r \<and>
        returned r = 1 \<and> sizes_out r 0 = - 2147483648)"
  by (simp add: unwind_eval far_frame_def)

text \<open>
  C5, amended: when frame sizes are recorded, in a call in which no assertion fails,
  for every recorded frame \<open>i\<close>, which is
  the frame \<open>f\<close> that the walk reaches after \<open>skip_count + i\<close> steps, with \<open>f'\<close> what
  the validator returns for it: if \<open>f'\<close> is at a strictly higher address, \<open>sizes[i]\<close>
  is the byte difference \<open>f' - f\<close> narrowed to \<^verbatim>\<open>int\<close>, which is exactly that
  difference whenever it is below \<open>2\<^sup>3\<^sup>1\<close>; otherwise \<open>sizes[i]\<close> is 0.
\<close>

theorem UnwindImpl_frame_sizes:
  fixes e :: "'a::len env"
  assumes "asserts_hold cfg e iwc ucp st"
  shows "\<exists>r. UnwindImpl cfg e True iwc frame_address st result sizes max_depth skip_count
                ucp mdf = Inr r \<and>
            (\<forall>i. 0 \<le> i \<and> i < returned r \<longrightarrow>
               (\<exists>st1 f st2 f'.
                  walk cfg e False iwc ucp st frame_address (nat (max 0 skip_count + i))
                    = Inr (st1, f) \<and>
                  NextStackFrame cfg e False iwc st1 f ucp = Inr (st2, f') \<and>
                  result_out r i = word_at e (f + sizeof_ptr) \<and>
                  sizes_out r i = (if f' > f then int_of_uintptr (f' - f) else 0) \<and>
                  (f' > f \<and> unat f' - unat f < 2 ^ 31 \<longrightarrow>
                     sizes_out r i = int (unat f' - unat f))))"
proof -
  obtain t r where
    t: "UnwindImpl_loop cfg e True iwc ucp max_depth
             \<lparr>l_fp = frame_address, l_n = 0, l_skip_count = skip_count, l_result = result,
              l_sizes = sizes, l_statics = st\<rparr> = Inr t"
    and r: "UnwindImpl cfg e True iwc frame_address st result sizes max_depth skip_count
              ucp mdf = Inr r"
      "returned r = l_n t" "result_out r = l_result t" "sizes_out r = l_sizes t"
    using UnwindImpl_returns [OF assms] by blast
  have exact: "int_of_uintptr (f' - f) = int (unat f' - unat f)"
    if "f' > f" "unat f' - unat f < 2 ^ 31" for f f' :: "'a word"
  proof -
    have "unat (f' - f) = unat f' - unat f"
      using that(1) by (simp add: unat_sub word_less_def word_le_def)
    then show ?thesis using int_of_uintptr_small [of "f' - f"] that(2) by simp
  qed
  have "\<exists>st1 f st2 f'.
          walk cfg e False iwc ucp st frame_address (nat (max 0 skip_count + i)) = Inr (st1, f) \<and>
          NextStackFrame cfg e False iwc st1 f ucp = Inr (st2, f') \<and>
          l_result t i = word_at e (f + sizeof_ptr) \<and>
          l_sizes t i = (if f' > f then int_of_uintptr (f' - f) else 0) \<and>
          (f' > f \<and> unat f' - unat f < 2 ^ 31 \<longrightarrow> l_sizes t i = int (unat f' - unat f))"
    if "0 \<le> i" "i < l_n t" for i
  proof -
    have c: "0 \<le> i \<and> i < l_n t" using that by simp
    obtain st1 f st2 f' where
      w: "walk cfg e False iwc ucp st frame_address (nat (max 0 skip_count + i)) = Inr (st1, f)"
        "NextStackFrame cfg e False iwc st1 f ucp = Inr (st2, f')"
        "l_result t i = word_at e (f + sizeof_ptr)"
        "l_sizes t i = (if f' > f then int_of_uintptr (f' - f) else 0)"
      using UnwindImpl_loop_walk(5) [OF t, rule_format, OF c] by auto
    then show ?thesis using exact [of f f'] by auto
  qed
  then show ?thesis using r by auto
qed

theorem UnwindImpl_frame_sizes_witness:
  "\<exists>r. UnwindImpl linux_x86_64 three_frames True False 0x7000 statics_initial
          (\<lambda>i. 0) (\<lambda>i. 7) 5 0 None None = Inr r \<and>
       returned r = 3 \<and> sizes_out r 0 = 32 \<and> sizes_out r 1 = 32 \<and> sizes_out r 2 = 0 \<and>
       sizes_out r 3 = 7 \<and>
       (\<forall>i. 0 \<le> i \<and> i < returned r \<longrightarrow>
               (\<exists>st1 f st2 f'.
                  walk linux_x86_64 three_frames False False None statics_initial 0x7000
                    (nat (max 0 0 + i)) = Inr (st1, f) \<and>
                  NextStackFrame linux_x86_64 three_frames False False st1 f None
                    = Inr (st2, f') \<and>
                  result_out r i = word_at three_frames (f + sizeof_ptr) \<and>
                  sizes_out r i = (if f' > f then int_of_uintptr (f' - f) else 0) \<and>
                  (f' > f \<and> unat f' - unat f < 2 ^ 31 \<longrightarrow>
                     sizes_out r i = int (unat f' - unat f))))"
proof -
  have run: "UnwindImpl linux_x86_64 three_frames True False 0x7000 statics_initial
          (\<lambda>i. 0) (\<lambda>i. 7) 5 0 None None
     = Inr \<lparr>returned = 3,
            result_out = (\<lambda>i. 0)(0 := 0x401000, 1 := 0x401100, 2 := 0x401200),
            sizes_out = (\<lambda>i. 7)(0 := 32, 1 := 32, 2 := 0),
            min_dropped_frames_out = None, statics_out = statics_initial\<rparr>"
    by (simp add: unwind_eval three_frames_def)
  have a: "asserts_hold linux_x86_64 three_frames False None statics_initial"
    by (simp add: asserts_hold_def)
  show ?thesis
    using UnwindImpl_frame_sizes [OF a, where frame_address = "0x7000" and result = "\<lambda>i. 0"
            and sizes = "\<lambda>i. 7" and max_depth = 5 and skip_count = 0 and mdf = None]
    unfolding run by simp
qed


text \<open>
  C4: for every \<open>skip_count \<ge> 0\<close>, in a call in which no assertion fails, the
  \<open>i\<close>-th return address of the output is the one
  of the frame that the walk reaches after \<open>skip_count + i\<close> steps, so the first
  \<open>skip_count\<close> frames are left out; and when the first \<open>skip_count + max_depth\<close>
  frames of the walk are valid (non-null, with a non-null return address),
  \<^verbatim>\<open>UnwindImpl\<close> records \<open>max_depth\<close> frames.
\<close>

theorem UnwindImpl_skip:
  fixes e :: "'a::len env"
  assumes "0 \<le> skip_count" "0 \<le> max_depth" "asserts_hold cfg e iwc ucp st"
  shows "\<exists>r. UnwindImpl cfg e isf iwc frame_address st result sizes max_depth skip_count
                ucp mdf = Inr r \<and>
            (\<forall>i. 0 \<le> i \<and> i < returned r \<longrightarrow>
               (\<exists>st1 f. walk cfg e (\<not> isf) iwc ucp st frame_address (nat (skip_count + i))
                           = Inr (st1, f) \<and>
                        result_out r i = word_at e (f + sizeof_ptr))) \<and>
            ((\<forall>k < nat (skip_count + max_depth).
                \<exists>st1 f. walk cfg e (\<not> isf) iwc ucp st frame_address k = Inr (st1, f) \<and>
                        f \<noteq> 0 \<and> word_at e (f + sizeof_ptr) \<noteq> 0)
             \<longrightarrow> returned r = max_depth)"
proof -
  obtain t r where
    t: "UnwindImpl_loop cfg e isf iwc ucp max_depth
             \<lparr>l_fp = frame_address, l_n = 0, l_skip_count = skip_count, l_result = result,
              l_sizes = sizes, l_statics = st\<rparr> = Inr t"
    and r: "UnwindImpl cfg e isf iwc frame_address st result sizes max_depth skip_count
              ucp mdf = Inr r"
      "returned r = l_n t" "result_out r = l_result t"
    using UnwindImpl_returns [OF assms(3)] by blast
  have sk: "max 0 skip_count = skip_count" using assms(1) by simp
  have rec: "\<exists>st1 f. walk cfg e (\<not> isf) iwc ucp st frame_address (nat (skip_count + i))
                           = Inr (st1, f) \<and>
                        l_result t i = word_at e (f + sizeof_ptr)"
    if "0 \<le> i" "i < l_n t" for i
    using UnwindImpl_loop_walk(5) [OF t] that unfolding sk by blast
  have full: "l_n t = max_depth"
    if valid: "\<forall>k < nat (skip_count + max_depth).
                \<exists>st1 f. walk cfg e (\<not> isf) iwc ucp st frame_address k = Inr (st1, f) \<and>
                        f \<noteq> 0 \<and> word_at e (f + sizeof_ptr) \<noteq> 0"
  proof (rule ccontr)
    assume ne: "l_n t \<noteq> max_depth"
    have b: "0 \<le> l_n t" "l_n t \<le> max_depth" "max 0 (l_skip_count t) \<le> skip_count"
      using UnwindImpl_loop_walk(1) [OF t] assms(1,2) by auto
    then have lt: "l_n t < max_depth" using ne by simp
    let ?p = "nat (max 0 skip_count - max 0 (l_skip_count t) + l_n t)"
    have "?p < nat (skip_count + max_depth)" using b lt sk by auto
    then obtain st1 f where
      "walk cfg e (\<not> isf) iwc ucp st frame_address ?p = Inr (st1, f)"
      "f \<noteq> 0" "word_at e (f + sizeof_ptr) \<noteq> 0"
      using valid by blast
    moreover have "walk cfg e (\<not> isf) iwc ucp st frame_address ?p = Inr (l_statics t, l_fp t)"
      using UnwindImpl_loop_walk(2) [OF t] .
    ultimately have "l_fp t \<noteq> 0" "word_at e (l_fp t + sizeof_ptr) \<noteq> 0" by simp_all
    then show False using UnwindImpl_loop_walk(6) [OF t] lt by blast
  qed
  show ?thesis using r rec full by auto
qed

lemma three_frames_walk:
  "walk linux_x86_64 three_frames True False None statics_initial 0x7000 0
     = Inr (statics_initial, 0x7000)"
  "walk linux_x86_64 three_frames True False None statics_initial 0x7000 (Suc 0)
     = Inr (statics_initial, 0x7020)"
  "walk linux_x86_64 three_frames True False None statics_initial 0x7000 (Suc (Suc 0))
     = Inr (statics_initial, 0x7040)"
  by (simp_all add: unwind_eval three_frames_def)



theorem UnwindImpl_skip_witness:
  "walk linux_x86_64 three_frames True False None statics_initial 0x7000 1
     = Inr (statics_initial, 0x7020) \<and>
   walk linux_x86_64 three_frames True False None statics_initial 0x7000 2
     = Inr (statics_initial, 0x7040) \<and>
   (\<exists>r. UnwindImpl linux_x86_64 three_frames False False 0x7000 statics_initial
           (\<lambda>i. 0) (\<lambda>i. 0) 2 1 None None = Inr r \<and>
        returned r = 2 \<and> result_out r 0 = 0x401100 \<and> result_out r 1 = 0x401200)"
proof -
  have valid: "\<forall>k < nat (1 + 2).
     \<exists>st1 f. walk linux_x86_64 three_frames (\<not> False) False None statics_initial 0x7000 k
               = Inr (st1, f) \<and>
             f \<noteq> 0 \<and> word_at three_frames (f + sizeof_ptr) \<noteq> 0"
  proof (intro allI impI)
    fix k :: nat assume "k < nat (1 + 2)"
    then consider "k = 0" | "k = Suc 0" | "k = Suc (Suc 0)" by fastforce
    then show "\<exists>st1 f. walk linux_x86_64 three_frames (\<not> False) False None statics_initial
                          0x7000 k = Inr (st1, f) \<and>
             f \<noteq> 0 \<and> word_at three_frames (f + sizeof_ptr) \<noteq> 0"
    proof cases
      case 1
      then show ?thesis using three_frames_walk(1)
        by (simp add: three_frames_def stack_env_def mem_of_def sizeof_ptr_def)
    next
      case 2
      then show ?thesis using three_frames_walk(2)
        by (simp add: three_frames_def stack_env_def mem_of_def sizeof_ptr_def)
    next
      case 3
      then show ?thesis using three_frames_walk(3)
        by (simp add: three_frames_def stack_env_def mem_of_def sizeof_ptr_def)
    qed
  qed
  have a: "asserts_hold linux_x86_64 three_frames False None statics_initial"
    by (simp add: asserts_hold_def)
  have p: "(0::int) \<le> 1" "(0::int) \<le> 2" by simp_all
  note inst = UnwindImpl_skip [OF p a, where isf = False
            and frame_address = "0x7000" and result = "\<lambda>i. 0" and sizes = "\<lambda>i. 0"
            and mdf = None]
  have run: "UnwindImpl linux_x86_64 three_frames False False 0x7000 statics_initial
           (\<lambda>i. 0) (\<lambda>i. 0) 2 1 None None
     = Inr \<lparr>returned = 2, result_out = (\<lambda>i. 0)(0 := 0x401100, 1 := 0x401200),
            sizes_out = (\<lambda>i. 0), min_dropped_frames_out = None,
            statics_out = statics_initial\<rparr>"
    by (simp add: unwind_eval three_frames_def)
  from inst obtain r where
    r: "UnwindImpl linux_x86_64 three_frames False False 0x7000 statics_initial
           (\<lambda>i. 0) (\<lambda>i. 0) 2 1 None None = Inr r"
    and full: "(\<forall>k < nat (1 + 2).
     \<exists>st1 f. walk linux_x86_64 three_frames (\<not> False) False None statics_initial 0x7000 k
               = Inr (st1, f) \<and>
             f \<noteq> 0 \<and> word_at three_frames (f + sizeof_ptr) \<noteq> 0) \<longrightarrow> returned r = 2"
    by blast
  have "returned r = 2" using full valid by blast
  moreover have "result_out r 0 = 0x401100" "result_out r 1 = 0x401200"
    using r unfolding run by auto
  ultimately show ?thesis
    using r three_frames_walk by (simp add: numeral_2_eq_2)
qed


subsection \<open>The stack of 1002 frames\<close>












subsection \<open>UnwindImpl: the claims on the counting loop and on strictness\<close>







lemma walk_add:
  "walk cfg e strict wc uc st fp k = Inr (st', fp') \<Longrightarrow>
   walk cfg e strict wc uc st fp (k + m) = walk cfg e strict wc uc st' fp' m"
  by (induction m) simp_all

lemma NextStackFrame_lax_accepts:
  assumes "NextStackFrame cfg e False wc st fp uc = Inr (st', fp')" "fp' \<noteq> 0"
  shows "fp' \<noteq> fp \<and> (target_os cfg \<noteq> Win32 \<longrightarrow> AddressIsReadable e fp')"
proof -
  obtain N where "fp' = check_transition cfg e False wc fp N uc"
    using NextStackFrame_result [OF assms(1)] by blast
  then show ?thesis
    using assms(2) by (auto simp: check_transition_def split: if_splits)
qed

lemma NextStackFrame_strict_accepts:
  assumes "NextStackFrame cfg e True wc st fp uc = Inr (st', fp')" "fp' \<noteq> 0"
    "\<not> wc \<or> uc = None \<or> fp' \<noteq> GetFP cfg uc"
  shows "fp < fp' \<and> fp' - fp \<le> 100000"
proof -
  obtain N where N: "check_transition cfg e True wc fp N uc = fp'"
    using NextStackFrame_result [OF assms(1)] by metis
  show ?thesis
    using check_transition_strict [OF N assms(2) assms(3)] by blast
qed

lemma walk_step_checked:
  fixes e :: "'a::len env"
  assumes "walk cfg e (\<not> isf) iwc ucp st fp k = Inr (st1, f)"
    and "walk cfg e (\<not> isf) iwc ucp st fp (Suc k) = Inr (st2, f')" and "f' \<noteq> 0"
  shows "(isf \<longrightarrow> f' \<noteq> f \<and> (target_os cfg \<noteq> Win32 \<longrightarrow> AddressIsReadable e f')) \<and>
         (\<not> isf \<and> (\<not> iwc \<or> ucp = None \<or> f' \<noteq> GetFP cfg ucp) \<longrightarrow>
            f < f' \<and> f' - f \<le> 100000)"
proof -
  have n: "NextStackFrame cfg e (\<not> isf) iwc st1 f ucp = Inr (st2, f')"
    using assms(1,2) by simp
  show ?thesis
  proof (cases isf)
    case True
    then show ?thesis using NextStackFrame_lax_accepts [of cfg e iwc st1 f ucp st2 f'] n assms(3)
      by simp
  next
    case False
    then show ?thesis using NextStackFrame_strict_accepts [of cfg e iwc st1 f ucp st2 f'] n assms(3)
      by simp
  qed
qed

text \<open>
  C10, as the claim states it, fails in both directions. Without frame sizes, in a call
  with a signal context, \<^verbatim>\<open>UnwindImpl\<close> records the frame at \<open>0x1000\<close> after the one at
  \<open>0x2000\<close>: the candidate is the frame pointer of the context, and the strict checks
  are skipped for it. With frame sizes, on a target that defines \<^verbatim>\<open>_WIN32\<close>,
  \<^verbatim>\<open>UnwindImpl\<close> records a frame that the readability probe would refuse: the probe is
  compiled out there.
\<close>

theorem UnwindImpl_strictness_counterexample:
  "(\<exists>r. UnwindImpl linux_x86_64 step_down False True 0x2000 statics_initial (\<lambda>i. 0) (\<lambda>i. 0)
           2 0 (Some \<lparr>gregs_BP = 0x1000, gregs_SP = 0x1000, gregs_IP = 0\<rparr>) None = Inr r \<and>
        returned r = 2 \<and> result_out r 0 = 0x400200 \<and> result_out r 1 = 0x400100) \<and>
   walk linux_x86_64 step_down (\<not> False) True
     (Some \<lparr>gregs_BP = 0x1000, gregs_SP = 0x1000, gregs_IP = 0\<rparr>) statics_initial 0x2000 1
     = Inr (statics_initial, 0x1000) \<and>
   \<not> (0x2000 :: 64 word) < 0x1000 \<and>
   (\<exists>r. UnwindImpl win32_x86_64 nothing_readable True False 0x1000 statics_initial
           (\<lambda>i. 0) (\<lambda>i. 0) 2 0 None None = Inr r \<and>
        returned r = 2 \<and> result_out r 0 = 0x400100 \<and> result_out r 1 = 0x400200) \<and>
   walk win32_x86_64 nothing_readable (\<not> True) False None statics_initial 0x1000 1
     = Inr (statics_initial, 0x2000) \<and>
   \<not> AddressIsReadable nothing_readable 0x2000"
  by (simp add: unwind_eval GetFP_def step_down_def win32_x86_64_def nothing_readable_def)

text \<open>
  C10, amended: in a call in which no assertion fails, \<^verbatim>\<open>UnwindImpl\<close> is one walk of the
  validator with \<^verbatim>\<open>STRICT_UNWINDING\<close> the negation of \<^verbatim>\<open>IS_STACK_FRAMES\<close>. The capture
  loop follows it for \<open>p\<close> steps, through valid frames, to where it stops, and records
  the return addresses of the frames from \<open>skip_count\<close> on; the counting loop follows
  the same walk from step \<open>p\<close> on, for \<open>j\<close> more steps. So with frame sizes every frame
  accepted, in either loop, differs from the current one and, unless the target defines
  \<^verbatim>\<open>_WIN32\<close>, passed the readability probe; and without them every frame accepted, in
  either loop, other than the frame pointer \<^verbatim>\<open>GetFP(uc)\<close> of a signal context in use,
  lies above the current one by at most 100000 bytes.
\<close>

theorem UnwindImpl_strictness:
  fixes e :: "'a::len env"
  assumes "asserts_hold cfg e iwc ucp st"
  shows "\<exists>s r p.
     UnwindImpl_loop cfg e isf iwc ucp max_depth
       \<lparr>l_fp = frame_address, l_n = 0, l_skip_count = skip_count, l_result = result,
        l_sizes = sizes, l_statics = st\<rparr> = Inr s \<and>
     UnwindImpl cfg e isf iwc frame_address st result sizes max_depth skip_count ucp mdf
       = Inr r \<and>
     returned r = l_n s \<and>
     p = nat (max 0 skip_count - max 0 (l_skip_count s) + l_n s) \<and>
     walk cfg e (\<not> isf) iwc ucp st frame_address p = Inr (l_statics s, l_fp s) \<and>
     (\<forall>k < p. \<exists>st1 f. walk cfg e (\<not> isf) iwc ucp st frame_address k = Inr (st1, f) \<and>
                       f \<noteq> 0 \<and> word_at e (f + sizeof_ptr) \<noteq> 0) \<and>
     (l_fp s = 0 \<or> \<not> l_n s < max_depth \<or> word_at e (l_fp s + sizeof_ptr) = 0) \<and>
     (\<forall>i. 0 \<le> i \<and> i < returned r \<longrightarrow>
        (\<exists>st1 f. walk cfg e (\<not> isf) iwc ucp st frame_address (nat (max 0 skip_count + i))
                    = Inr (st1, f) \<and>
                 result_out r i = word_at e (f + sizeof_ptr))) \<and>
     (mdf \<noteq> None \<longrightarrow>
        (\<exists>j st2 f2. min_dropped_frames_out r = Some j \<and> 0 \<le> j \<and> j \<le> 1000 \<and>
           walk cfg e (\<not> isf) iwc ucp st frame_address (p + nat j) = Inr (st2, f2) \<and>
           (f2 = 0 \<or> j = 1000) \<and>
           (\<forall>m < nat j. \<exists>st1 f. walk cfg e (\<not> isf) iwc ucp st frame_address (p + m)
                                   = Inr (st1, f) \<and> f \<noteq> 0))) \<and>
     (\<forall>k st1 f st2 f'.
        walk cfg e (\<not> isf) iwc ucp st frame_address k = Inr (st1, f) \<and>
        walk cfg e (\<not> isf) iwc ucp st frame_address (Suc k) = Inr (st2, f') \<and> f' \<noteq> 0 \<longrightarrow>
        (isf \<longrightarrow> f' \<noteq> f \<and> (target_os cfg \<noteq> Win32 \<longrightarrow> AddressIsReadable e f')) \<and>
        (\<not> isf \<and> (\<not> iwc \<or> ucp = None \<or> f' \<noteq> GetFP cfg ucp) \<longrightarrow>
           f < f' \<and> f' - f \<le> 100000))"
proof -
  obtain s r where
    s: "UnwindImpl_loop cfg e isf iwc ucp max_depth
             \<lparr>l_fp = frame_address, l_n = 0, l_skip_count = skip_count, l_result = result,
              l_sizes = sizes, l_statics = st\<rparr> = Inr s"
    and r: "UnwindImpl cfg e isf iwc frame_address st result sizes max_depth skip_count ucp mdf
             = Inr r"
    and rs: "returned r = l_n s" "result_out r = l_result s"
    and d: "case mdf of
              None \<Rightarrow> min_dropped_frames_out r = None
            | Some old \<Rightarrow>
                (\<exists>st' fp' j. count_dropped cfg e isf iwc ucp (l_statics s) (l_fp s) 0
                                = Inr (st', fp', j) \<and>
                             min_dropped_frames_out r = Some j)"
    using UnwindImpl_returns [OF assms] by blast
  define p where "p = nat (max 0 skip_count - max 0 (l_skip_count s) + l_n s)"
  note w = UnwindImpl_loop_walk [OF s]
  have pos: "walk cfg e (\<not> isf) iwc ucp st frame_address p = Inr (l_statics s, l_fp s)"
    using w(2) by (simp add: p_def)
  have valid: "\<forall>k < p. \<exists>st1 f. walk cfg e (\<not> isf) iwc ucp st frame_address k = Inr (st1, f) \<and>
                       f \<noteq> 0 \<and> word_at e (f + sizeof_ptr) \<noteq> 0"
    using w(3) by (simp add: p_def)
  have rec: "\<exists>st1 f. walk cfg e (\<not> isf) iwc ucp st frame_address (nat (max 0 skip_count + i))
                    = Inr (st1, f) \<and>
                 result_out r i = word_at e (f + sizeof_ptr)"
    if "0 \<le> i \<and> i < returned r" for i
    using w(5) [rule_format, of i] that rs by auto
  have count: "\<exists>j st2 f2. min_dropped_frames_out r = Some j \<and> 0 \<le> j \<and> j \<le> 1000 \<and>
           walk cfg e (\<not> isf) iwc ucp st frame_address (p + nat j) = Inr (st2, f2) \<and>
           (f2 = 0 \<or> j = 1000) \<and>
           (\<forall>m < nat j. \<exists>st1 f. walk cfg e (\<not> isf) iwc ucp st frame_address (p + m)
                                   = Inr (st1, f) \<and> f \<noteq> 0)"
    if md: "mdf \<noteq> None"
  proof -
    obtain st' fp' j where
      c: "count_dropped cfg e isf iwc ucp (l_statics s) (l_fp s) 0 = Inr (st', fp', j)"
      and j: "min_dropped_frames_out r = Some j"
      using d md by (cases mdf) auto
    note cw = count_dropped_walk [OF c]
    have "walk cfg e (\<not> isf) iwc ucp st frame_address (p + nat j) = Inr (st', fp')"
      using walk_add [OF pos, of "nat j"] cw(2) by simp
    moreover have "\<exists>st1 f. walk cfg e (\<not> isf) iwc ucp st frame_address (p + m)
                                   = Inr (st1, f) \<and> f \<noteq> 0" if "m < nat j" for m
      using walk_add [OF pos, of m] cw(3) that by simp
    ultimately show ?thesis using j cw(1,4) by blast
  qed
  have steps: "(isf \<longrightarrow> f' \<noteq> f \<and> (target_os cfg \<noteq> Win32 \<longrightarrow> AddressIsReadable e f')) \<and>
        (\<not> isf \<and> (\<not> iwc \<or> ucp = None \<or> f' \<noteq> GetFP cfg ucp) \<longrightarrow>
           f < f' \<and> f' - f \<le> 100000)"
    if "walk cfg e (\<not> isf) iwc ucp st frame_address k = Inr (st1, f) \<and>
        walk cfg e (\<not> isf) iwc ucp st frame_address (Suc k) = Inr (st2, f') \<and> f' \<noteq> 0"
    for k st1 f st2 f'
    using walk_step_checked [of cfg e isf iwc ucp st frame_address k st1 f st2 f'] that
    by blast
  show ?thesis
  proof (intro exI [of _ s] exI [of _ r] exI [of _ p] conjI)
    show "p = nat (max 0 skip_count - max 0 (l_skip_count s) + l_n s)" by (rule p_def)
  qed (use s r rs(1) pos valid w(6) rec count steps in blast)+
qed


theorem UnwindImpl_strictness_witness:
  "(\<exists>r. UnwindImpl linux_x86_64 three_frames False False 0x7000 statics_initial
           (\<lambda>i. 0) (\<lambda>i. 0) 1 0 None (Some 0) = Inr r \<and>
        returned r = 1 \<and> result_out r 0 = 0x401000 \<and> min_dropped_frames_out r = Some 2) \<and>
   walk linux_x86_64 three_frames (\<not> False) False None statics_initial 0x7000 (Suc 0)
     = Inr (statics_initial, 0x7020) \<and>
   (0x7000 :: 64 word) < 0x7020 \<and> (0x7020 :: 64 word) - 0x7000 \<le> 100000"
proof -
  have a: "asserts_hold linux_x86_64 three_frames False None statics_initial"
    by (simp add: asserts_hold_def)
  have steps: "\<forall>k st1 f st2 f'.
        walk linux_x86_64 three_frames (\<not> False) False None statics_initial 0x7000 k
          = Inr (st1, f) \<and>
        walk linux_x86_64 three_frames (\<not> False) False None statics_initial 0x7000 (Suc k)
          = Inr (st2, f') \<and> f' \<noteq> 0 \<longrightarrow>
        (False \<longrightarrow> f' \<noteq> f \<and>
           (target_os linux_x86_64 \<noteq> Win32 \<longrightarrow> AddressIsReadable three_frames f')) \<and>
        (\<not> False \<and> (\<not> False \<or> (None :: 64 ucontext option) = None \<or>
                    f' \<noteq> GetFP linux_x86_64 None) \<longrightarrow>
           f < f' \<and> f' - f \<le> 100000)"
    using UnwindImpl_strictness [OF a, where isf = False and max_depth = 1
            and frame_address = "0x7000" and skip_count = 0 and result = "\<lambda>i. 0"
            and sizes = "\<lambda>i. 0" and mdf = "Some 0"]
    by blast
  have w: "walk linux_x86_64 three_frames (\<not> False) False None statics_initial 0x7000 0
             = Inr (statics_initial, 0x7000) \<and>
           walk linux_x86_64 three_frames (\<not> False) False None statics_initial 0x7000 (Suc 0)
             = Inr (statics_initial, 0x7020) \<and> (0x7020 :: 64 word) \<noteq> 0"
    using three_frames_walk by simp
  have "(0x7000 :: 64 word) < 0x7020 \<and> (0x7020 :: 64 word) - 0x7000 \<le> 100000"
    using steps [rule_format, OF w] by blast
  moreover have "\<exists>r. UnwindImpl linux_x86_64 three_frames False False 0x7000 statics_initial
           (\<lambda>i. 0) (\<lambda>i. 0) 1 0 None (Some 0) = Inr r \<and>
        returned r = 1 \<and> result_out r 0 = 0x401000 \<and> min_dropped_frames_out r = Some 2"
    by (simp add: unwind_eval three_frames_def)
  ultimately show ?thesis using w by blast
qed

end
